(* ===== verification/Prelude.thy ===== *)
theory Prelude
  imports Main "HOL-Library.Word"
begin

unbundle bit_operations_syntax

section \<open>Shared vocabulary of the development\<close>

text \<open>
  The types, the error discipline and the byte-level operations that the components
  share.

  \<^item> Go's fixed-width unsigned integers are words (\<open>u8\<close> to \<open>u64\<close>); byte slices are
    lists of \<open>u8\<close>.
  \<^item> A Go function that returns \<open>(T, error)\<close> returns a sum: \<open>Inr\<close> the value or
    \<open>Inl\<close> the failure. A failure is either an \<open>error\<close> value the code builds
    (\<open>Err\<close>) or a run-time panic (\<open>Panic\<close>): an index or slice expression out of
    range. A theorem that a decoder never panics is therefore a statement about its model.
  \<^item> \<open>encoding/binary\<close>'s big-endian accessors are \<open>of_be\<close> and \<open>to_be\<close>.
  \<^item> Writes into a fresh buffer (\<open>make([]byte, n)\<close> and then \<open>PutUint32(buf[a:b], v)\<close>
    or \<open>copy\<close>) are \<open>put_bytes\<close>, which fails when the range leaves the buffer.

  The collections \<open>res_simps\<close> (the result monad) and \<open>byte_simps\<close> (reads and
  writes) carry the codec proofs.
\<close>

named_theorems res_simps \<open>the result monad\<close>
named_theorems byte_simps \<open>checked reads and writes of byte buffers\<close>

type_synonym u8 = "8 word"
type_synonym u16 = "16 word"
type_synonym u32 = "32 word"
type_synonym u64 = "64 word"
type_synonym u128 = "128 word"
type_synonym bytes = "u8 list"

subsection \<open>Results\<close>

datatype 'e failure = Panic | Err 'e

type_synonym ('e, 'a) res = "'e failure + 'a"

fun rbind :: "('e, 'a) res \<Rightarrow> ('a \<Rightarrow> ('e, 'b) res) \<Rightarrow> ('e, 'b) res" where
  "rbind (Inl e) f = Inl e"
| "rbind (Inr a) f = f a"

definition guard_err :: "bool \<Rightarrow> 'e \<Rightarrow> ('e, 'a) res \<Rightarrow> ('e, 'a) res" where
  "guard_err b e k = (if b then Inl (Err e) else k)"

definition no_panic :: "('e, 'a) res \<Rightarrow> bool" where
  "no_panic r \<longleftrightarrow> r \<noteq> Inl Panic"

lemma no_panic_simps [simp]: "no_panic (Inr a)" "no_panic (Inl (Err e))" "\<not> no_panic (Inl Panic)"
  by (simp_all add: no_panic_def)

lemma guard_err_True [res_simps]: "guard_err True e k = Inl (Err e)"
  by (simp add: guard_err_def)

lemma guard_err_False [res_simps]: "guard_err False e k = k"
  by (simp add: guard_err_def)

lemma rbind_eq_Inr [res_simps]:
  "rbind m f = Inr b \<longleftrightarrow> (\<exists>a. m = Inr a \<and> f a = Inr b)"
  by (cases m) auto

lemma rbind_assoc: "rbind (rbind m f) g = rbind m (\<lambda>x. rbind (f x) g)"
  by (cases m) auto

lemma guard_err_eq_Inr [res_simps]:
  "guard_err b e k = Inr a \<longleftrightarrow> \<not> b \<and> k = Inr a"
  by (simp add: guard_err_def)

lemma no_panic_guard_err [simp]: "no_panic (guard_err b e k) \<longleftrightarrow> b \<or> no_panic k"
  by (simp add: guard_err_def)

lemma no_panic_rbind_Inr [simp]: "no_panic (rbind m (\<lambda>x. Inr (f x))) \<longleftrightarrow> no_panic m"
  by (cases m) (auto simp: no_panic_def)

lemma no_panic_rbind:
  "no_panic m \<Longrightarrow> (\<And>a. m = Inr a \<Longrightarrow> no_panic (f a)) \<Longrightarrow> no_panic (rbind m f)"
  by (cases m) (auto simp: no_panic_def)

subsection \<open>Big-endian words\<close>

fun to_be :: "nat \<Rightarrow> 'a::len word \<Rightarrow> bytes" where
  "to_be 0 w = []"
| "to_be (Suc n) w = ucast (drop_bit (8 * n) w) # to_be n w"

definition of_be :: "bytes \<Rightarrow> 'a::len word" where
  "of_be bs = foldl (\<lambda>acc b. push_bit 8 acc OR ucast b) 0 bs"

lemma to_be_numeral [simp]:
  "to_be (numeral k) w = ucast (drop_bit (8 * pred_numeral k) w) # to_be (pred_numeral k) w"
  by (simp add: numeral_eq_Suc)

lemma length_to_be [simp]: "length (to_be n w) = n"
  by (induction n) auto

lemma of_be_Nil [simp]: "of_be [] = 0"
  by (simp add: of_be_def)

lemma of_be_snoc: "of_be (bs @ [b]) = push_bit 8 (of_be bs) OR ucast b"
  by (simp add: of_be_def)

lemma bit_of_be:
  "bit (of_be bs :: 'a::len word) i \<longleftrightarrow>
     i < LENGTH('a) \<and> i div 8 < length bs \<and> bit (bs ! (length bs - Suc (i div 8))) (i mod 8)"
proof (induction bs arbitrary: i rule: rev_induct)
  case Nil
  then show ?case by simp
next
  case (snoc b bs)
  show ?case
  proof (cases "i < 8")
    case True
    then show ?thesis
      by (auto simp: of_be_snoc bit_simps nth_append)
  next
    case False
    then obtain j where j: "i = 8 + j" by (metis le_add_diff_inverse not_less)
    then have div: "(8 + j) div 8 = Suc (j div 8)" by simp
    have nb: "\<not> bit b i"
      using False by (auto dest: bit_imp_le_length)
    show ?thesis
      using snoc [of j] nb by (auto simp: j div of_be_snoc bit_simps nth_append)
  qed
qed

lemma nth_to_be: "k < n \<Longrightarrow> to_be n w ! k = ucast (drop_bit (8 * (n - Suc k)) w)"
  by (induction n arbitrary: k) (auto simp: nth_Cons split: nat.splits)

lemma of_be_to_be:
  assumes "LENGTH('a) \<le> 8 * n"
  shows "of_be (to_be n w) = (w :: 'a::len word)"
proof (rule bit_word_eqI)
  fix i assume i: "i < LENGTH('a)"
  then have "i div 8 < n" using assms by (simp add: less_mult_imp_div_less mult.commute)
  then show "bit (of_be (to_be n w) :: 'a word) i = bit w i"
    using i by (simp add: bit_of_be nth_to_be bit_simps)
qed

lemma to_be_of_be:
  assumes "length bs = n" and "8 * n \<le> LENGTH('a)"
  shows "to_be n (of_be bs :: 'a::len word) = bs"
proof (rule nth_equalityI)
  show "length (to_be n (of_be bs :: 'a word)) = length bs" using assms by simp
next
  fix k assume "k < length (to_be n (of_be bs :: 'a word))"
  then have k: "k < n" by simp
  have "bit (to_be n (of_be bs :: 'a word) ! k) i = bit (bs ! k) i" if "i < 8" for i
  proof -
    have "8 * (n - Suc k) + i < 8 * n" using k that by arith
    moreover have "(8 * (n - Suc k) + i) div 8 = n - Suc k" "(8 * (n - Suc k) + i) mod 8 = i"
      using that by auto
    ultimately show ?thesis
      using k assms that by (auto simp: nth_to_be bit_of_be bit_simps)
  qed
  then show "to_be n (of_be bs :: 'a word) ! k = bs ! k"
    by (intro bit_word_eqI) simp
qed

lemma of_be_u16 [simp]: "of_be (to_be 2 w) = (w :: u16)"
  by (rule of_be_to_be) simp

lemma of_be_u32 [simp]: "of_be (to_be 4 w) = (w :: u32)"
  by (rule of_be_to_be) simp

lemma of_be_u64 [simp]: "of_be (to_be 8 w) = (w :: u64)"
  by (rule of_be_to_be) simp

lemma of_be_u128 [simp]: "of_be (to_be 16 w) = (w :: u128)"
  by (rule of_be_to_be) simp

declare to_be_numeral [simp del]

subsection \<open>Checked reads and writes\<close>

definition get_u8 :: "bytes \<Rightarrow> nat \<Rightarrow> ('e, u8) res" where
  "get_u8 data i = (if i < length data then Inr (data ! i) else Inl Panic)"

definition slice :: "bytes \<Rightarrow> nat \<Rightarrow> nat \<Rightarrow> ('e, bytes) res" where
  "slice data a b =
     (if a \<le> b \<and> b \<le> length data then Inr (take (b - a) (drop a data)) else Inl Panic)"

definition get_u16 :: "bytes \<Rightarrow> nat \<Rightarrow> ('e, u16) res" where
  "get_u16 data i = rbind (slice data i (i + 2)) (\<lambda>s. Inr (of_be s))"

definition get_u32 :: "bytes \<Rightarrow> nat \<Rightarrow> ('e, u32) res" where
  "get_u32 data i = rbind (slice data i (i + 4)) (\<lambda>s. Inr (of_be s))"

definition put_bytes :: "nat \<Rightarrow> bytes \<Rightarrow> bytes \<Rightarrow> ('e, bytes) res" where
  "put_bytes i v buf =
     (if i + length v \<le> length buf then Inr (take i buf @ v @ drop (i + length v) buf)
      else Inl Panic)"

text \<open>\<open>copy(dst[a:b], src)\<close> copies as many bytes as both sides have and never panics
  once the slice expression \<open>dst[a:b]\<close> is in range.\<close>

definition copy_bytes :: "nat \<Rightarrow> nat \<Rightarrow> bytes \<Rightarrow> bytes \<Rightarrow> ('e, bytes) res" where
  "copy_bytes a b src buf =
     (if a \<le> b \<and> b \<le> length buf
      then let n = min (b - a) (length src) in Inr (take a buf @ take n src @ drop (a + n) buf)
      else Inl Panic)"

lemma get_u8_ok [byte_simps]: "i < length data \<Longrightarrow> get_u8 data i = Inr (data ! i)"
  by (simp add: get_u8_def)

lemma slice_ok [byte_simps]:
  "a \<le> b \<Longrightarrow> b \<le> length data \<Longrightarrow> slice data a b = Inr (take (b - a) (drop a data))"
  by (simp add: slice_def)

lemma get_u16_ok [byte_simps]:
  "i + 2 \<le> length data \<Longrightarrow> get_u16 data i = Inr (of_be (take 2 (drop i data)))"
  by (simp add: get_u16_def slice_def)

lemma get_u32_ok [byte_simps]:
  "i + 4 \<le> length data \<Longrightarrow> get_u32 data i = Inr (of_be (take 4 (drop i data)))"
  by (simp add: get_u32_def slice_def)

lemma put_bytes_ok:
  "i + length v \<le> length buf \<Longrightarrow>
     put_bytes i v buf = Inr (take i buf @ v @ drop (i + length v) buf)"
  by (simp add: put_bytes_def)

lemma copy_bytes_ok:
  "length src = b - a \<Longrightarrow> a \<le> b \<Longrightarrow> b \<le> length buf \<Longrightarrow>
     copy_bytes a b src buf = Inr (take a buf @ src @ drop b buf)"
  by (simp add: copy_bytes_def Let_def)

lemma put_bytes_length: "put_bytes i v buf = Inr buf' \<Longrightarrow> length buf' = length buf"
  by (auto simp: put_bytes_def split: if_splits)

subsection \<open>Filling a fresh buffer from left to right\<close>

definition make_bytes :: "nat \<Rightarrow> bytes" where
  "make_bytes n = replicate n 0"

text \<open>\<open>padded xs n\<close> is a buffer of \<open>n\<close> bytes whose first bytes are \<open>xs\<close> and
  whose rest is still zero: the state of every \<open>Serialize\<close> method between two writes.\<close>

definition padded :: "bytes \<Rightarrow> nat \<Rightarrow> bytes" where
  "padded xs n = xs @ replicate (n - length xs) 0"

lemma make_bytes_padded [byte_simps]: "make_bytes n = padded [] n"
  by (simp add: make_bytes_def padded_def)

lemma padded_full: "length xs = n \<Longrightarrow> padded xs n = xs"
  by (simp add: padded_def)

lemma length_padded: "length xs \<le> n \<Longrightarrow> length (padded xs n) = n"
  by (simp add: padded_def)

lemma drop_replicate_append: "drop (i + k) (replicate n x) = replicate (n - (i + k)) x"
  by simp

lemma put_bytes_padded [byte_simps]:
  assumes "length xs \<le> i" and "i + length v \<le> n"
  shows "put_bytes i v (padded xs n) = Inr (padded (xs @ replicate (i - length xs) 0 @ v) n)"
  using assms by (simp add: put_bytes_def padded_def min_def)

lemma copy_bytes_padded [byte_simps]:
  assumes "length xs \<le> a" and "a \<le> b" and "b \<le> n" and "length src \<le> b - a"
  shows "copy_bytes a b src (padded xs n) =
           Inr (padded (xs @ replicate (a - length xs) 0 @ src) n)"
  using assms by (simp add: copy_bytes_def padded_def min_def Let_def)

lemma of_be_explicit [simp]:
  "of_be [ucast (drop_bit 8 a), ucast a] = (a :: u16)"
  "of_be [ucast (drop_bit 24 b), ucast (drop_bit 16 b), ucast (drop_bit 8 b), ucast b] = (b :: u32)"
  using of_be_u16 [of a] of_be_u32 [of b] by (simp_all add: to_be_numeral)

subsection \<open>Interfaces of the wire formats\<close>

text \<open>
  What a message format promises its users: every well-formed message has an encoding,
  and decoding it gives the message back. A format that travels over a byte stream also
  has a reader that cuts one message off the front of the stream, and a receive loop
  that repeats the reader until it fails.
\<close>

locale message_codec =
  fixes wf :: "'m \<Rightarrow> bool"
    and enc :: "'m \<Rightarrow> ('e, bytes) res"
    and dec :: "bytes \<Rightarrow> ('e, 'm) res"
  assumes enc_dec: "wf m \<Longrightarrow> \<exists>bs. enc m = Inr bs \<and> dec bs = Inr m"
begin

lemma dec_enc: "wf m \<Longrightarrow> enc m = Inr bs \<Longrightarrow> dec bs = Inr m"
  using enc_dec [of m] by auto

lemma enc_inj: "wf m \<Longrightarrow> wf m' \<Longrightarrow> enc m = enc m' \<Longrightarrow> m = m'"
  using enc_dec [of m] enc_dec [of m'] by auto

end

locale stream_codec = message_codec +
  fixes read :: "bytes \<Rightarrow> ('r, bytes \<times> bytes) res"
    and loop :: "bytes \<Rightarrow> bytes list"
    and fits :: "bytes \<Rightarrow> bool"
  assumes read_enc: "wf m \<Longrightarrow> enc m = Inr bs \<Longrightarrow> fits bs \<Longrightarrow> read (bs @ rest) = Inr (bs, rest)"
    and loop_step: "read r = Inr (d, r') \<Longrightarrow> loop r = d # loop r'"
    and loop_stop: "read r = Inl e \<Longrightarrow> loop r = []"
    and read_empty: "\<exists>e. read [] = Inl e"
begin

lemma loop_stream:
  assumes "list_all2 (\<lambda>m bs. wf m \<and> enc m = Inr bs \<and> fits bs) ms bss"
  shows "loop (concat bss) = bss \<and> map dec (loop (concat bss)) = map Inr ms"
  using assms
proof (induction rule: list_all2_induct)
  case Nil
  from read_empty obtain e where "read [] = Inl e" ..
  then show ?case by (simp add: loop_stop)
next
  case (Cons m ms bs bss)
  then have "loop (bs @ concat bss) = bs # loop (concat bss)"
    by (intro loop_step read_enc) auto
  with Cons show ?case by (auto intro: dec_enc)
qed

end

subsection \<open>Interfaces of the stores\<close>

text \<open>
  What a stateful component promises its users: on an input that is \<open>ok\<close> in the state a step
  succeeds, keeps the invariant, and changes the view of the state as the specification says. A step
  may use up one unit of \<open>room\<close>. A history of steps whose inputs are \<open>ok\<close> when they
  arrive (\<open>run_ok\<close>) then refines the history of the specification.
\<close>

fun run_steps :: "('i \<Rightarrow> 's \<Rightarrow> ('e, 's) res) \<Rightarrow> 'i list \<Rightarrow> 's \<Rightarrow> ('e, 's) res" where
  "run_steps step [] s = Inr s"
| "run_steps step (i # is) s = rbind (step i s) (run_steps step is)"

fun run_ok :: "('i \<Rightarrow> 's \<Rightarrow> ('e, 's) res) \<Rightarrow> ('i \<Rightarrow> 's \<Rightarrow> bool) \<Rightarrow> 'i list \<Rightarrow> 's \<Rightarrow> bool" where
  "run_ok step ok [] s = True"
| "run_ok step ok (i # is) s \<longleftrightarrow> ok i s \<and> (case step i s of Inr s' \<Rightarrow> run_ok step ok is s' | Inl _ \<Rightarrow> True)"

lemma run_ok_all: "list_all P is \<Longrightarrow> run_ok step (\<lambda>i _. P i) is s"
  by (induction "is" arbitrary: s) (auto split: sum.split)

lemma run_ok_conj: "run_ok step ok is s \<Longrightarrow> list_all P is \<Longrightarrow> run_ok step (\<lambda>i s. ok i s \<and> P i) is s"
  by (induction "is" arbitrary: s) (auto split: sum.splits)

locale refined_store =
  fixes step :: "'i \<Rightarrow> 's \<Rightarrow> ('e, 's) res"
    and ok :: "'i \<Rightarrow> 's \<Rightarrow> bool"
    and wf :: "'s \<Rightarrow> bool"
    and view :: "'s \<Rightarrow> 'v"
    and spec :: "'i \<Rightarrow> 'v \<Rightarrow> 'v"
    and room :: "'s \<Rightarrow> nat"
  assumes step_refines: "ok i s \<Longrightarrow> wf s \<Longrightarrow> 0 < room s \<Longrightarrow>
    \<exists>s'. step i s = Inr s' \<and> wf s' \<and> view s' = spec i (view s) \<and> room s \<le> room s' + 1"
begin

lemma run_refines:
  assumes "run_ok step ok is s" and "wf s" and "length is \<le> room s"
  shows "\<exists>s'. run_steps step is s = Inr s' \<and> wf s' \<and> view s' = fold spec is (view s)"
  using assms
proof (induction "is" arbitrary: s)
  case (Cons i "is")
  then obtain s' where "step i s = Inr s'" "wf s'" "view s' = spec i (view s)" "room s \<le> room s' + 1"
    using step_refines [of i s] by auto
  then show ?case using Cons.IH [of s'] Cons.prems by auto
qed simp

end

end
