(* ===== verification/Bfd_Packet.thy ===== *)
theory Bfd_Packet
  imports Prelude
begin

section \<open>BFD control packets: \<open>pkg/packet/bfd/bfd.go\<close>\<close>

text \<open>
  The control packet of RFC 5880 as the package keeps it (\<open>BFDHeader\<close>), with
  \<open>Validate\<close>, \<open>MarshalBinary\<close> and \<open>UnmarshalBinary\<close>. \<open>StateType\<close> and
  \<open>DiagnosticType\<close> are bytes in the code, and \<open>Validate\<close> is what bounds them.
\<close>

datatype bfd_error =
  ErrInvalidPacketLength | ErrInvalidHeader | ErrInvalidVersion | ErrInvalidDiagnostic | ErrInvalidState

abbreviation (input) "StateAdminDown \<equiv> (0 :: u8)"
abbreviation (input) "StateDown \<equiv> (1 :: u8)"
abbreviation (input) "StateInit \<equiv> (2 :: u8)"
abbreviation (input) "StateUp \<equiv> (3 :: u8)"

abbreviation (input) "packetSizeMin \<equiv> (24 :: nat)"

record BFDHeader =
  Version :: u8
  Diagnostic :: u8
  State :: u8
  Poll :: bool
  Final :: bool
  DetectTimeMultiplier :: u8
  MyDiscriminator :: u32
  YourDiscriminator :: u32
  DesiredMinTxInterval :: u32
  RequiredMinRxInterval :: u32

definition Validate :: "BFDHeader \<Rightarrow> (bfd_error, unit) res" where
  "Validate h =
     guard_err (Version h > 7) ErrInvalidVersion
    (guard_err (Diagnostic h > 31) ErrInvalidDiagnostic
    (guard_err (State h > 3) ErrInvalidState (Inr ())))"

definition byteToBool :: "u8 \<Rightarrow> bool" where
  "byteToBool b \<longleftrightarrow> b \<noteq> 0"

definition boolToByte :: "bool \<Rightarrow> u8" where
  "boolToByte b = (if b then 1 else 0)"

definition UnmarshalBinary :: "bytes \<Rightarrow> (bfd_error, BFDHeader) res" where
  "UnmarshalBinary buf =
     guard_err (length buf < packetSizeMin) ErrInvalidPacketLength
    (rbind (get_u8 buf 3) (\<lambda>b3.
     guard_err (length buf \<noteq> unat b3) ErrInvalidHeader
    (rbind (get_u8 buf 0) (\<lambda>b0.
     rbind (get_u8 buf 1) (\<lambda>b1.
     rbind (get_u8 buf 2) (\<lambda>b2.
     rbind (get_u32 buf 4) (\<lambda>my.
     rbind (get_u32 buf 8) (\<lambda>your.
     rbind (get_u32 buf 12) (\<lambda>tx.
     rbind (get_u32 buf 16) (\<lambda>rx.
       Inr \<lparr>Version = drop_bit 5 b0,
            Diagnostic = b0 AND 0x1f,
            State = drop_bit 6 b1,
            Poll = byteToBool (drop_bit 5 b1 AND 1),
            Final = byteToBool (drop_bit 4 b1 AND 1),
            DetectTimeMultiplier = b2,
            MyDiscriminator = my,
            YourDiscriminator = your,
            DesiredMinTxInterval = tx,
            RequiredMinRxInterval = rx\<rparr>))))))))))"

definition MarshalBinary :: "BFDHeader \<Rightarrow> (bfd_error, bytes) res" where
  "MarshalBinary h =
     rbind (Validate h) (\<lambda>_.
     rbind (put_bytes 0 [push_bit 5 (Version h) OR (Diagnostic h AND 0x1f)]
              (make_bytes packetSizeMin)) (\<lambda>d.
     rbind (put_bytes 1 [push_bit 6 (State h) OR push_bit 5 (boolToByte (Poll h)) OR
                         push_bit 4 (boolToByte (Final h))] d) (\<lambda>d.
     rbind (put_bytes 2 [DetectTimeMultiplier h] d) (\<lambda>d.
     rbind (put_bytes 3 [24] d) (\<lambda>d.
     rbind (put_bytes 4 (to_be 4 (MyDiscriminator h)) d) (\<lambda>d.
     rbind (put_bytes 8 (to_be 4 (YourDiscriminator h)) d) (\<lambda>d.
     rbind (put_bytes 12 (to_be 4 (DesiredMinTxInterval h)) d) (\<lambda>d.
     put_bytes 16 (to_be 4 (RequiredMinRxInterval h)) d))))))))"

subsection \<open>The packed bit fields\<close>

lemma Validate_ok: "Validate h = Inr () \<longleftrightarrow> Version h \<le> 7 \<and> Diagnostic h \<le> 31 \<and> State h \<le> 3"
  by (auto simp: Validate_def res_simps not_less)

lemma and_1f: "w AND 0x1f = take_bit 5 w" for w :: u8
  by (simp add: take_bit_eq_mask mask_eq_exp_minus_1)

lemma small_bits: "unat w < 2 ^ n \<Longrightarrow> bit w i \<Longrightarrow> i < n" for w :: u8
proof -
  assume "unat w < 2 ^ n" and "bit w i"
  then have "bit (take_bit n (unat w)) i"
    by (simp add: take_bit_nat_eq_self bit_unsigned_iff bit_imp_le_length)
  then show "i < n" by (simp add: bit_take_bit_iff)
qed

lemma vers_diag_fields:
  assumes "v \<le> 7" and "d \<le> 31"
  shows "drop_bit 5 (push_bit 5 v OR (d AND 0x1f)) = (v :: u8)"
    and "(push_bit 5 v OR (d AND 0x1f)) AND 0x1f = (d :: u8)"
proof -
  have v: "bit v i \<Longrightarrow> i < 3" and d: "bit d i \<Longrightarrow> i < 5" for i
    using assms small_bits [of v 3] small_bits [of d 5] by (simp_all add: word_le_nat_alt)
  show "drop_bit 5 (push_bit 5 v OR (d AND 0x1f)) = v"
    by (rule bit_word_eqI) (auto simp: bit_simps and_1f dest: v d)
  show "(push_bit 5 v OR (d AND 0x1f)) AND 0x1f = d"
    unfolding and_1f by (rule bit_word_eqI) (auto simp: bit_simps dest: v d)
qed

lemma state_flag_fields:
  fixes s :: u8 and p f :: bool
  assumes "s \<le> 3"
  defines "b \<equiv> push_bit 6 s OR push_bit 5 (boolToByte p) OR push_bit 4 (boolToByte f)"
  shows "drop_bit 6 b = (s :: u8)"
    and "byteToBool (drop_bit 5 b AND 1) = p"
    and "byteToBool (drop_bit 4 b AND 1) = f"
proof -
  have "s = 0 \<or> s = 1 \<or> s = 2 \<or> s = 3"
    using assms(1) by unat_arith
  then show "drop_bit 6 b = s" "byteToBool (drop_bit 5 b AND 1) = p"
    "byteToBool (drop_bit 4 b AND 1) = f"
    unfolding b_def by (cases p; cases f; auto simp: boolToByte_def byteToBool_def)+
qed

lemma unmarshalled_fields:
  fixes b :: u8
  shows "drop_bit 5 b \<le> 7" "b AND 0x1f \<le> 31" "drop_bit 6 b \<le> 3"
proof -
  have "unat b < 256" using unsigned_less [of b] by simp
  then show "drop_bit 5 b \<le> 7" "drop_bit 6 b \<le> 3"
    by (simp_all add: word_le_nat_alt drop_bit_eq_div unat_div_distrib)
  show "b AND 0x1f \<le> 31" by (rule word_and_le1)
qed

subsection \<open>Round trips\<close>

lemma MarshalBinary_layout:
  assumes "Validate h = Inr ()"
  shows "MarshalBinary h = Inr (
    [push_bit 5 (Version h) OR (Diagnostic h AND 0x1f),
     push_bit 6 (State h) OR push_bit 5 (boolToByte (Poll h)) OR push_bit 4 (boolToByte (Final h)),
     DetectTimeMultiplier h, 24] @
    to_be 4 (MyDiscriminator h) @ to_be 4 (YourDiscriminator h) @
    to_be 4 (DesiredMinTxInterval h) @ to_be 4 (RequiredMinRxInterval h) @ replicate 4 0)"
proof -
  have "padded xs 24 = xs @ replicate 4 0" if "length xs = 20" for xs
    using that by (simp add: padded_def)
  with assms show ?thesis by (simp add: MarshalBinary_def byte_simps)
qed

lemma BFD_roundtrip_aux:
  assumes "Validate h = Inr ()"
  shows "\<exists>bs. MarshalBinary h = Inr bs \<and> UnmarshalBinary bs = Inr h"
proof -
  from assms have "Version h \<le> 7" "Diagnostic h \<le> 31" "State h \<le> 3"
    by (simp_all add: Validate_ok)
  then show ?thesis
    using vers_diag_fields [of "Version h" "Diagnostic h"]
      state_flag_fields [of "State h" "Poll h" "Final h"]
    by (simp add: MarshalBinary_layout [OF assms] UnmarshalBinary_def byte_simps res_simps)
qed

interpretation bfd_codec: message_codec "\<lambda>h. Validate h = Inr ()" MarshalBinary UnmarshalBinary
  by unfold_locales (rule BFD_roundtrip_aux)

text \<open>C29: A BFD header that passes \<open>Validate\<close> is marshalled without error, and
  unmarshalling the 24 bytes gives the same header back.\<close>

theorem BFD_roundtrip:
  assumes "Validate h = Inr ()"
  shows "\<exists>bs. MarshalBinary h = Inr bs \<and> length bs = 24 \<and> UnmarshalBinary bs = Inr h"
  using bfd_codec.enc_dec [OF assms] by (auto simp: MarshalBinary_layout [OF assms])

theorem BFD_roundtrip_witness:
  "\<exists>bs. MarshalBinary \<lparr>Version = 1, Diagnostic = 3, State = 2, Poll = True, Final = False,
      DetectTimeMultiplier = 3, MyDiscriminator = 17, YourDiscriminator = 99,
      DesiredMinTxInterval = 1000000, RequiredMinRxInterval = 300000\<rparr> = Inr bs \<and> length bs = 24 \<and>
    UnmarshalBinary bs = Inr \<lparr>Version = 1, Diagnostic = 3, State = 2, Poll = True, Final = False,
      DetectTimeMultiplier = 3, MyDiscriminator = 17, YourDiscriminator = 99,
      DesiredMinTxInterval = 1000000, RequiredMinRxInterval = 300000\<rparr>"
  by (rule BFD_roundtrip) (simp add: Validate_ok)

text \<open>C30: Unmarshalling never panics, and what it accepts always passes \<open>Validate\<close>: the
  version, diagnostic and state fields cut out of the first two bytes are in range, so
  every accepted header can be marshalled again.\<close>

theorem UnmarshalBinary_safe:
  "no_panic (UnmarshalBinary buf) \<and>
   (\<forall>h. UnmarshalBinary buf = Inr h \<longrightarrow> length buf \<ge> 24 \<and> Validate h = Inr ())"
proof (cases "length buf < 24")
  case True
  then show ?thesis by (simp add: UnmarshalBinary_def res_simps)
next
  case False
  then show ?thesis
    by (auto simp: UnmarshalBinary_def byte_simps res_simps Validate_ok unmarshalled_fields
        guard_err_def simp del: length_greater_0_conv)
qed

theorem UnmarshalBinary_safe_witness:
  "Validate \<lparr>Version = 1, Diagnostic = 0, State = 1, Poll = False, Final = False,
     DetectTimeMultiplier = 3, MyDiscriminator = 7, YourDiscriminator = 0,
     DesiredMinTxInterval = 1000000, RequiredMinRxInterval = 1000000\<rparr> = Inr ()"
proof -
  have "UnmarshalBinary [0x20, 0x40, 3, 24, 0, 0, 0, 7, 0, 0, 0, 0, 0, 15, 66, 64, 0, 15, 66, 64, 0, 0, 0, 0]
     = Inr \<lparr>Version = 1, Diagnostic = 0, State = 1, Poll = False, Final = False,
     DetectTimeMultiplier = 3, MyDiscriminator = 7, YourDiscriminator = 0,
     DesiredMinTxInterval = 1000000, RequiredMinRxInterval = 1000000\<rparr>"
    by (simp add: UnmarshalBinary_def byte_simps res_simps byteToBool_def of_be_def)
  then show ?thesis using UnmarshalBinary_safe by blast
qed

end
