(* ===== verification/Netip.thy ===== *)
theory Netip
  imports Prelude "HOL-Library.Char_ord" "HOL-Library.List_Lexorder" "HOL-Library.Product_Lexorder"
begin

section \<open>Addresses and prefixes of Go's \<open>net/netip\<close>\<close>

text \<open>
  The part of the standard library's \<open>net/netip\<close> that the program uses. The zero
  \<open>netip.Addr\<close> is \<open>AddrNone\<close> (not valid); an IPv6 address carries its zone. The
  order of \<open>Addr.Compare\<close> is the instance of \<open>linorder\<close> below: by bit length, then
  by value, then by zone.
\<close>

datatype addr = AddrNone | Addr4 u32 | Addr6 u128 string

fun IsValid :: "addr \<Rightarrow> bool" where
  "IsValid AddrNone = False"
| "IsValid _ = True"

fun Is4 :: "addr \<Rightarrow> bool" where
  "Is4 (Addr4 _) = True"
| "Is4 _ = False"

fun Is6 :: "addr \<Rightarrow> bool" where
  "Is6 (Addr6 _ _) = True"
| "Is6 _ = False"

fun Is4In6 :: "addr \<Rightarrow> bool" where
  "Is4In6 (Addr6 w _) = (drop_bit 32 w = 0xffff)"
| "Is4In6 _ = False"

fun BitLen :: "addr \<Rightarrow> nat" where
  "BitLen AddrNone = 0"
| "BitLen (Addr4 _) = 32"
| "BitLen (Addr6 _ _) = 128"

fun Zone :: "addr \<Rightarrow> string" where
  "Zone (Addr6 _ z) = z"
| "Zone _ = []"

fun WithZone :: "addr \<Rightarrow> string \<Rightarrow> addr" where
  "WithZone (Addr6 w _) z = Addr6 w z"
| "WithZone a z = a"

fun AsSlice :: "addr \<Rightarrow> bytes" where
  "AsSlice AddrNone = []"
| "AsSlice (Addr4 w) = to_be 4 w"
| "AsSlice (Addr6 w _) = to_be 16 w"

text \<open>\<open>AddrFromSlice\<close> returns the zero address (and false, which every caller here
  drops) for a slice that is neither 4 nor 16 bytes long.\<close>

definition AddrFromSlice :: "bytes \<Rightarrow> addr" where
  "AddrFromSlice bs =
     (if length bs = 4 then Addr4 (of_be bs)
      else if length bs = 16 then Addr6 (of_be bs) []
      else AddrNone)"

definition IsUnspecified :: "addr \<Rightarrow> bool" where
  "IsUnspecified a \<longleftrightarrow> a = Addr4 0 \<or> a = Addr6 0 []"

fun Unmap :: "addr \<Rightarrow> addr" where
  "Unmap (Addr6 w z) = (if drop_bit 32 w = 0xffff then Addr4 (ucast w) else Addr6 w z)"
| "Unmap a = a"

fun IsLoopback :: "addr \<Rightarrow> bool" where
  "IsLoopback AddrNone = False"
| "IsLoopback (Addr4 w) = (drop_bit 24 w = 127)"
| "IsLoopback (Addr6 w z) =
     (if drop_bit 32 w = 0xffff then drop_bit 24 (ucast w :: u32) = 127 else w = 1)"

fun IsMulticast :: "addr \<Rightarrow> bool" where
  "IsMulticast AddrNone = False"
| "IsMulticast (Addr4 w) = (drop_bit 28 w = 0xe)"
| "IsMulticast (Addr6 w z) =
     (if drop_bit 32 w = 0xffff then drop_bit 28 (ucast w :: u32) = 0xe else drop_bit 120 w = 0xff)"

fun IsLinkLocalUnicast :: "addr \<Rightarrow> bool" where
  "IsLinkLocalUnicast AddrNone = False"
| "IsLinkLocalUnicast (Addr4 w) = (drop_bit 16 w = 0xa9fe)"
| "IsLinkLocalUnicast (Addr6 w z) =
     (if drop_bit 32 w = 0xffff then drop_bit 16 (ucast w :: u32) = 0xa9fe
      else drop_bit 118 w = 0x3fa)"

subsection \<open>The order of \<open>Addr.Compare\<close>\<close>

fun addr_val :: "addr \<Rightarrow> nat" where
  "addr_val AddrNone = 0"
| "addr_val (Addr4 w) = unat w"
| "addr_val (Addr6 w _) = unat w"

definition addr_key :: "addr \<Rightarrow> nat \<times> nat \<times> string" where
  "addr_key a = (BitLen a, addr_val a, Zone a)"

lemma addr_key_inj: "addr_key a = addr_key b \<Longrightarrow> a = b"
  by (cases a; cases b) (auto simp: addr_key_def word_unat_eq_iff)

instantiation addr :: linorder
begin

definition less_eq_addr :: "addr \<Rightarrow> addr \<Rightarrow> bool" where
  "a \<le> b \<longleftrightarrow> addr_key a \<le> addr_key b"

definition less_addr :: "addr \<Rightarrow> addr \<Rightarrow> bool" where
  "a < b \<longleftrightarrow> addr_key a < addr_key b"

instance
proof
  fix x y z :: addr
  show "x < y \<longleftrightarrow> x \<le> y \<and> \<not> y \<le> x"
    by (auto simp: less_addr_def less_eq_addr_def)
  show "x \<le> x" by (simp add: less_eq_addr_def)
  show "x \<le> y \<Longrightarrow> y \<le> z \<Longrightarrow> x \<le> z"
    unfolding less_eq_addr_def by (rule order_trans)
  show "x \<le> y \<Longrightarrow> y \<le> x \<Longrightarrow> x = y"
    unfolding less_eq_addr_def by (rule addr_key_inj) simp
  show "x \<le> y \<or> y \<le> x" by (auto simp: less_eq_addr_def)
qed

end

definition Compare_addr :: "addr \<Rightarrow> addr \<Rightarrow> int" where
  "Compare_addr a b =
     (if BitLen a < BitLen b then -1 else if BitLen b < BitLen a then 1
      else if addr_val a < addr_val b then -1 else if addr_val b < addr_val a then 1
      else if Is6 a then (if Zone a < Zone b then -1 else if Zone b < Zone a then 1 else 0)
      else 0)"

lemma Compare_addr_cases:
  "Compare_addr a b = (if a < b then -1 else if b < a then 1 else 0)"
  by (cases a; cases b)
     (auto simp: Compare_addr_def less_addr_def addr_key_def less_prod_def' word_less_nat_alt)

lemma AddrFromSlice_AsSlice: "Zone a = [] \<Longrightarrow> AddrFromSlice (AsSlice a) = a"
  by (cases a) (simp_all add: AddrFromSlice_def)

lemma length_AsSlice [simp]: "length (AsSlice a) = BitLen a div 8"
  by (cases a) simp_all

subsection \<open>Prefixes\<close>

record prefix =
  prefix_addr :: addr
  prefix_bits :: nat

text \<open>The leading \<open>n\<close> bits of an address, the most significant first: what
  \<open>Prefix.Contains\<close> and \<open>Prefix.Masked\<close> look at.\<close>

definition word_bits :: "'a::len word \<Rightarrow> bool list" where
  "word_bits w = map (\<lambda>i. bit w (LENGTH('a) - Suc i)) [0..<LENGTH('a)]"

fun addr_bits :: "addr \<Rightarrow> bool list" where
  "addr_bits AddrNone = []"
| "addr_bits (Addr4 w) = word_bits w"
| "addr_bits (Addr6 w _) = word_bits w"

lemma length_word_bits [simp]: "length (word_bits (w :: 'a::len word)) = LENGTH('a)"
  by (simp add: word_bits_def)

lemma length_addr_bits [simp]: "length (addr_bits a) = BitLen a"
  by (cases a) simp_all

lemma word_bits_inject [simp]: "word_bits v = word_bits w \<longleftrightarrow> v = w"
proof
  assume eq: "word_bits v = word_bits w"
  show "v = w"
  proof (rule bit_word_eqI)
    fix n assume n: "n < LENGTH('a)"
    then have "word_bits v ! (LENGTH('a) - Suc n) = word_bits w ! (LENGTH('a) - Suc n)"
      by (simp add: eq)
    with n show "bit v n = bit w n"
      by (simp add: word_bits_def Suc_diff_Suc)
  qed
qed simp

end
