(* ===== verification/Bfd_Peer.thy ===== *)
theory Bfd_Peer
  imports Bfd_Packet Netip
begin

section \<open>The BFD session: \<open>pkg/server/bfd_peer.go\<close>\<close>

text \<open>
  One \<open>bfdPeer\<close> and the handlers its event loop runs. The loop is a single goroutine,
  so a handler is a function from peer to peer, and a run is a sequence of events.

  \<^item> Durations and times are \<open>int64\<close> nanoseconds in the code and integers here; that no
    product leaves the \<open>int64\<close> range is a property below.
  \<^item> A handler runs at one instant, \<open>now\<close> of its environment. The environment also
    supplies the random numbers (\<open>rand.IntN(n)\<close> is a raw draw modulo \<open>n\<close>, one raw
    draw per call) and the outcome of each socket write and of a dial.
  \<^item> The transmit timer is the absolute deadline it is armed for, the expiry ticker its
    next tick with its period; \<open>None\<close> is a stopped timer. A \<open>Reset\<close> discards a pending
    expiry (the semantics of Go 1.23 and later, which the module requires).
  \<^item> \<open>eventRxPacket\<close> is a channel of capacity one, the packet waiting in it if any.
  \<^item> Division is on non-negative numbers only, where Go's and HOL's agree.
  \<^item> What leaves the peer is kept in the state: the packets written to the socket, the
    newest first and each with its time, and the number of \<open>ResetPeer\<close> calls.
\<close>

datatype session_state = SESSION_UNSPECIFIED | SESSION_UP | SESSION_DOWN | SESSION_ADMIN_DOWN | SESSION_INIT

record bfd_env =
  now :: int
  raw_rand :: "nat \<Rightarrow> nat"
  write_ok :: "nat \<Rightarrow> bool"
  dial_ok :: bool
  ttl_ok :: bool

record UDPAddr =
  udp_IP :: bytes
  udp_Zone :: string
  udp_Port :: int

record BfdConfig =
  cfg_Port :: u16
  cfg_DesiredMinimumTxInterval :: u32
  cfg_RequiredMinimumReceive :: u32
  cfg_DetectionMultiplier :: u8

record bfdPeer =
  peerAddress :: addr
  peerPort :: int
  localAddress :: addr
  udpClient :: "(UDPAddr \<times> UDPAddr) option"
  expiryInterval :: int
  session :: session_state
  myDiscriminator :: u32
  yourDiscriminator :: u32
  multiplier :: u8
  rxInterval :: int
  txInterval :: int
  desiredMinTx :: int
  remoteMinRxInterval :: int
  lastTx :: int
  txJitterPct :: int
  pollSequence :: bool
  startArmed :: bool
  eventTx :: "int option"
  eventExpiry :: "(int \<times> int) option"
  eventRxPacket :: "BFDHeader option"
  stopped :: bool
  finished :: bool
  rxPackets :: u64
  txPackets :: u64
  txDrop :: u64
  txError :: u64
  invalidDiscriminator :: u64
  invalidMultiplier :: u64
  expired :: u64
  draws :: nat
  writes :: nat
  sent :: "(int \<times> BFDHeader) list"
  resets :: nat

abbreviation (input) "Microsecond \<equiv> (1000 :: int)"
abbreviation (input) "Second \<equiv> (1000000000 :: int)"

definition randRange :: "bfd_env \<Rightarrow> nat \<Rightarrow> int \<Rightarrow> int \<Rightarrow> int" where
  "randRange env k lo hi = lo + int (raw_rand env k) mod (hi - lo + 1)"

text \<open>The draws of \<open>rand.Uint32\<close> until one is not zero; \<open>None\<close> while none is.\<close>

fun randomBFDMyDiscriminator :: "u32 list \<Rightarrow> u32 option" where
  "randomBFDMyDiscriminator [] = None"
| "randomBFDMyDiscriminator (v # vs) = (if v \<noteq> 0 then Some v else randomBFDMyDiscriminator vs)"

subsection \<open>Transmission\<close>

definition effectiveTxInterval :: "bfdPeer \<Rightarrow> int" where
  "effectiveTxInterval p = max (desiredMinTx p) (remoteMinRxInterval p)"

definition jitteredTxInterval :: "bfdPeer \<Rightarrow> int" where
  "jitteredTxInterval p = effectiveTxInterval p * txJitterPct p div 100"

definition drawTxJitter :: "bfd_env \<Rightarrow> bfdPeer \<Rightarrow> bfdPeer" where
  "drawTxJitter env p =
     (let maxPct = (if multiplier p = 1 then 90 else 100)
      in p\<lparr>txJitterPct := randRange env (draws p) 75 maxPct, draws := draws p + 1\<rparr>)"

definition sendPacket :: "bfd_env \<Rightarrow> u8 \<Rightarrow> bool \<Rightarrow> bool \<Rightarrow> u32 \<Rightarrow> bfdPeer \<Rightarrow> bfdPeer" where
  "sendPacket env st poll final your p =
     (if udpClient p = None then p\<lparr>txDrop := txDrop p + 1\<rparr>
      else
        let packet = \<lparr>Version = 1, Diagnostic = 0, State = st, Poll = poll, Final = final,
              DetectTimeMultiplier = multiplier p, MyDiscriminator = myDiscriminator p,
              YourDiscriminator = your,
              DesiredMinTxInterval = word_of_int (desiredMinTx p div Microsecond),
              RequiredMinRxInterval = word_of_int (rxInterval p div Microsecond)\<rparr>
        in case MarshalBinary packet of
             Inl _ \<Rightarrow> p
           | Inr buffer \<Rightarrow>
               if write_ok env (writes p)
               then p\<lparr>writes := writes p + 1, sent := (now env, packet) # sent p,
                      txPackets := txPackets p + 1\<rparr>
               else p\<lparr>writes := writes p + 1, txError := txError p + 1\<rparr>)"

definition sessionStateToWire :: "bfdPeer \<Rightarrow> u8" where
  "sessionStateToWire p = (case session p of
      SESSION_UP \<Rightarrow> StateUp
    | SESSION_INIT \<Rightarrow> StateInit
    | SESSION_ADMIN_DOWN \<Rightarrow> StateAdminDown
    | _ \<Rightarrow> StateDown)"

definition tx :: "bfd_env \<Rightarrow> bfdPeer \<Rightarrow> bfdPeer" where
  "tx env p0 =
     (let p1 = drawTxJitter env (p0\<lparr>lastTx := now env\<rparr>);
          p = p1\<lparr>eventTx := Some (now env + jitteredTxInterval p1)\<rparr>
      in case session p of
           SESSION_UP \<Rightarrow> sendPacket env StateUp (pollSequence p) False (yourDiscriminator p) p
         | SESSION_INIT \<Rightarrow> sendPacket env StateInit (pollSequence p) False (yourDiscriminator p) p
         | _ \<Rightarrow> sendPacket env StateDown (pollSequence p) False 0 p)"

definition armTx :: "bfd_env \<Rightarrow> bfdPeer \<Rightarrow> bfdPeer" where
  "armTx env p =
     (let remaining = lastTx p + jitteredTxInterval p - now env
      in if remaining \<le> 0 then tx env p
         else p\<lparr>eventTx := Some (now env + remaining)\<rparr>)"

subsection \<open>State transitions\<close>

definition setDesiredMinTx :: "int \<Rightarrow> bfdPeer \<Rightarrow> bfdPeer" where
  "setDesiredMinTx d p =
     (if d = desiredMinTx p then p
      else let p = p\<lparr>desiredMinTx := d\<rparr>
           in if yourDiscriminator p \<noteq> 0 then p\<lparr>pollSequence := True\<rparr> else p)"

definition setStateDown :: "bfd_env \<Rightarrow> bfdPeer \<Rightarrow> bfdPeer" where
  "setStateDown env p =
     (let p = p\<lparr>session := SESSION_DOWN, yourDiscriminator := 0, pollSequence := False\<rparr>;
          p = setDesiredMinTx (max (txInterval p) Second) p
      in tx env (p\<lparr>eventExpiry := None\<rparr>))"

definition setStateInit :: "bfd_env \<Rightarrow> u32 \<Rightarrow> bfdPeer \<Rightarrow> bfdPeer" where
  "setStateInit env your p = tx env (p\<lparr>session := SESSION_INIT, yourDiscriminator := your\<rparr>)"

definition setStateUp :: "bfd_env \<Rightarrow> u32 \<Rightarrow> bfdPeer \<Rightarrow> bfdPeer" where
  "setStateUp env your p =
     (let p = p\<lparr>session := SESSION_UP, yourDiscriminator := your\<rparr>;
          p = setDesiredMinTx (txInterval p) p
      in tx env (p\<lparr>eventExpiry := Some (now env + expiryInterval p, expiryInterval p)\<rparr>))"

definition resetPeer :: "bfdPeer \<Rightarrow> bfdPeer" where
  "resetPeer p = p\<lparr>resets := resets p + 1\<rparr>"

definition remoteDown :: "bfd_env \<Rightarrow> bfdPeer \<Rightarrow> bfdPeer" where
  "remoteDown env p = setStateDown env (resetPeer p)"

definition expiry :: "bfd_env \<Rightarrow> bfdPeer \<Rightarrow> bfdPeer" where
  "expiry env p =
     (if session p = SESSION_DOWN then p\<lparr>eventExpiry := None\<rparr>
      else setStateDown env (resetPeer (p\<lparr>expired := expired p + 1\<rparr>)))"

subsection \<open>Reception\<close>

definition rx_accepts :: "bfdPeer \<Rightarrow> BFDHeader \<Rightarrow> bool" where
  "rx_accepts p h \<longleftrightarrow>
     (if YourDiscriminator h \<noteq> 0 then YourDiscriminator h = myDiscriminator p
      else (State h = StateDown \<or> State h = StateAdminDown) \<and>
           (yourDiscriminator p = 0 \<or> MyDiscriminator h = yourDiscriminator p))"

definition rx_negotiate :: "BFDHeader \<Rightarrow> bfdPeer \<Rightarrow> bfdPeer" where
  "rx_negotiate h p =
     (let remoteTx = uint (DesiredMinTxInterval h) * Microsecond;
          negotiatedRx = (if remoteTx > rxInterval p then remoteTx else rxInterval p)
      in p\<lparr>rxPackets := rxPackets p + 1,
           expiryInterval := uint (DetectTimeMultiplier h) * negotiatedRx,
           remoteMinRxInterval := uint (RequiredMinRxInterval h) * Microsecond,
           pollSequence := (if Final h \<and> pollSequence p then False else pollSequence p)\<rparr>)"

definition rx_state :: "bfd_env \<Rightarrow> BFDHeader \<Rightarrow> bfdPeer \<Rightarrow> bfdPeer" where
  "rx_state env h p =
     (if State h = StateAdminDown then
        (if session p \<noteq> SESSION_DOWN then remoteDown env p else p)
      else if State h = StateDown then
        (case session p of
           SESSION_DOWN \<Rightarrow> setStateInit env (MyDiscriminator h) p
         | SESSION_UP \<Rightarrow> remoteDown env p
         | _ \<Rightarrow> p)
      else if State h = StateInit then
        (case session p of
           SESSION_DOWN \<Rightarrow> setStateUp env (MyDiscriminator h) p
         | SESSION_INIT \<Rightarrow> setStateUp env (MyDiscriminator h) p
         | _ \<Rightarrow> p)
      else if State h = StateUp then
        (if session p = SESSION_INIT then setStateUp env (MyDiscriminator h) p else p)
      else p)"

definition rx_reply :: "bfd_env \<Rightarrow> BFDHeader \<Rightarrow> bfdPeer \<Rightarrow> bfdPeer" where
  "rx_reply env h p =
     (if Poll h then sendPacket env (sessionStateToWire p) False True (MyDiscriminator h) p else p)"

definition rx_rearm :: "bfd_env \<Rightarrow> bfdPeer \<Rightarrow> bfdPeer" where
  "rx_rearm env p =
     (if session p = SESSION_INIT \<or> session p = SESSION_UP
      then p\<lparr>eventExpiry := Some (now env + expiryInterval p, expiryInterval p)\<rparr> else p)"

definition rxPacket :: "bfd_env \<Rightarrow> BFDHeader \<Rightarrow> bfdPeer \<Rightarrow> bfdPeer" where
  "rxPacket env h p =
     (if DetectTimeMultiplier h = 0 then p\<lparr>invalidMultiplier := invalidMultiplier p + 1\<rparr>
      else if MyDiscriminator h = 0 then p\<lparr>invalidDiscriminator := invalidDiscriminator p + 1\<rparr>
      else if \<not> rx_accepts p h then p\<lparr>invalidDiscriminator := invalidDiscriminator p + 1\<rparr>
      else
        armTx env (rx_rearm env (rx_reply env h (rx_state env h (rx_negotiate h p)))))"

subsection \<open>Construction and the event loop\<close>

definition newBfdPeer :: "bfd_env \<Rightarrow> u32 list \<Rightarrow> addr \<Rightarrow> BfdConfig \<Rightarrow> addr \<Rightarrow> bfdPeer option" where
  "newBfdPeer env rands peer config local =
     (case randomBFDMyDiscriminator rands of
        None \<Rightarrow> None
      | Some disc \<Rightarrow>
        let mult = (if cfg_DetectionMultiplier config > 0 then cfg_DetectionMultiplier config else 3);
            rx = (if cfg_RequiredMinimumReceive config > 0
                  then uint (cfg_RequiredMinimumReceive config) * Microsecond else Second);
            txi = (if cfg_DesiredMinimumTxInterval config > 0
                  then uint (cfg_DesiredMinimumTxInterval config) * Microsecond else Second);
            p = \<lparr>peerAddress = peer,
                 peerPort = (if cfg_Port config = 0 then 3784 else uint (cfg_Port config)),
                 localAddress = local, udpClient = None, expiryInterval = uint mult * rx, session = SESSION_DOWN,
                 myDiscriminator = disc, yourDiscriminator = 0, multiplier = mult,
                 rxInterval = rx, txInterval = txi, desiredMinTx = max txi Second,
                 remoteMinRxInterval = Microsecond, lastTx = now env, txJitterPct = 0,
                 pollSequence = False, startArmed = True, eventTx = None, eventExpiry = None,
                 eventRxPacket = None, stopped = False,
                 finished = False, rxPackets = 0, txPackets = 0, txDrop = 0, txError = 0,
                 invalidDiscriminator = 0, invalidMultiplier = 0, expired = 0,
                 draws = 0, writes = 0, sent = [], resets = 0\<rparr>;
            p = drawTxJitter env p
        in Some (p\<lparr>eventTx := Some (now env + jitteredTxInterval p)\<rparr>))"

definition remoteUDPAddr :: "bfdPeer \<Rightarrow> UDPAddr" where
  "remoteUDPAddr p =
     \<lparr>udp_IP = AsSlice (peerAddress p), udp_Zone = Zone (peerAddress p), udp_Port = peerPort p\<rparr>"

definition localUDPAddr :: "bfd_env \<Rightarrow> bfdPeer \<Rightarrow> UDPAddr" where
  "localUDPAddr env p =
     (let port = randRange env (draws p) 49152 65535
      in if IsValid (localAddress p) \<and> \<not> IsUnspecified (localAddress p)
         then \<lparr>udp_IP = AsSlice (localAddress p), udp_Zone = Zone (localAddress p), udp_Port = port\<rparr>
         else \<lparr>udp_IP = [], udp_Zone = [], udp_Port = port\<rparr>)"

definition startClient :: "bfd_env \<Rightarrow> bfdPeer \<Rightarrow> bfdPeer" where
  "startClient env p =
     (let local = localUDPAddr env p;
          remote = remoteUDPAddr p;
          p = p\<lparr>draws := draws p + 1\<rparr>
      in if \<not> dial_ok env then p
         else let p = p\<lparr>udpClient := Some (local, remote)\<rparr>
              in if \<not> ttl_ok env then p\<lparr>udpClient := None\<rparr> else p)"

definition start :: "bfd_env \<Rightarrow> bfdPeer \<Rightarrow> bfdPeer \<times> bool" where
  "start env p =
     (let p = (if udpClient p = None then startClient env p else p) in (p, udpClient p \<noteq> None))"

definition stop :: "bfdPeer \<Rightarrow> bfdPeer" where
  "stop p = (if udpClient p = None then p else p\<lparr>udpClient := None\<rparr>)"

definition shutdown :: "bfdPeer \<Rightarrow> bfdPeer" where
  "shutdown p = (stop p)\<lparr>startArmed := False, eventTx := None, eventExpiry := None\<rparr>"

text \<open>The two entry points other goroutines call: \<open>Rx\<close> offers a packet to the loop
  without blocking, \<open>Stop\<close> asks it to end (once).\<close>

definition Rx :: "BFDHeader \<Rightarrow> bfdPeer \<Rightarrow> bfdPeer \<times> bool" where
  "Rx packet p =
     (if stopped p then (p, False)
      else if eventRxPacket p = None then (p\<lparr>eventRxPacket := Some packet\<rparr>, True)
      else (p, False))"

definition Stop :: "bfdPeer \<Rightarrow> bfdPeer" where
  "Stop p = p\<lparr>stopped := True\<rparr>"

datatype bfd_event = EvStart | EvRxPacket | EvTx | EvExpiry | EvShutdown

text \<open>One iteration of \<open>loop\<close>: the case of the \<open>select\<close> that fires.\<close>

fun bfd_loop :: "bfd_env \<Rightarrow> bfd_event \<Rightarrow> bfdPeer \<Rightarrow> bfdPeer" where
  "bfd_loop env EvStart p =
     (let (p, success) = start env p in if success then p\<lparr>startArmed := False\<rparr> else p)"
| "bfd_loop env EvRxPacket p =
     (case eventRxPacket p of
        None \<Rightarrow> p
      | Some h \<Rightarrow> rxPacket env h (p\<lparr>eventRxPacket := None\<rparr>))"
| "bfd_loop env EvTx p = tx env p"
| "bfd_loop env EvExpiry p = expiry env p"
| "bfd_loop env EvShutdown p = (shutdown p)\<lparr>finished := True\<rparr>"

text \<open>When the \<open>select\<close> can take a case: a timer that is armed and due, a packet in the
  channel, the shutdown channel closed; nothing once the loop has returned.\<close>

fun bfd_enabled :: "bfd_env \<Rightarrow> bfd_event \<Rightarrow> bfdPeer \<Rightarrow> bool" where
  "bfd_enabled env EvStart p \<longleftrightarrow> \<not> finished p \<and> startArmed p"
| "bfd_enabled env EvRxPacket p \<longleftrightarrow> \<not> finished p \<and> eventRxPacket p \<noteq> None"
| "bfd_enabled env EvTx p \<longleftrightarrow>
     \<not> finished p \<and> (case eventTx p of None \<Rightarrow> False | Some t \<Rightarrow> t \<le> now env)"
| "bfd_enabled env EvExpiry p \<longleftrightarrow>
     \<not> finished p \<and> (case eventExpiry p of None \<Rightarrow> False | Some (t, _) \<Rightarrow> t \<le> now env)"
| "bfd_enabled env EvShutdown p \<longleftrightarrow> \<not> finished p \<and> stopped p"

inductive bfd_reach :: "bfdPeer \<Rightarrow> bool" where
  new: "newBfdPeer env rands peer config local = Some p \<Longrightarrow> bfd_reach p"
| Rx: "bfd_reach p \<Longrightarrow> bfd_reach (fst (Rx packet p))"
| Stop: "bfd_reach p \<Longrightarrow> bfd_reach (Stop p)"
| loop: "bfd_reach p \<Longrightarrow> bfd_enabled env ev p \<Longrightarrow> bfd_reach (bfd_loop env ev p)"

subsection \<open>The session invariant\<close>

text \<open>
  \<open>bfd_core\<close> is what every handler keeps at every point of its body, also between the
  two halves of \<open>rxPacket\<close>. \<open>bfd_armed\<close> is the part on the timers, which holds between
  events only.
\<close>

definition bfd_core :: "bfdPeer \<Rightarrow> bool" where
  "bfd_core p \<longleftrightarrow>
     session p \<in> {SESSION_DOWN, SESSION_INIT, SESSION_UP} \<and>
     myDiscriminator p \<noteq> 0 \<and> multiplier p \<noteq> 0 \<and>
     1000 \<le> rxInterval p \<and> rxInterval p \<le> 4294967295000 \<and>
     1000 \<le> txInterval p \<and> txInterval p \<le> 4294967295000 \<and>
     0 \<le> remoteMinRxInterval p \<and> remoteMinRxInterval p \<le> 4294967295000 \<and>
     1000 \<le> expiryInterval p \<and> expiryInterval p \<le> 255 * 4294967295000 \<and>
     desiredMinTx p = (if session p = SESSION_UP then txInterval p else max (txInterval p) Second) \<and>
     (yourDiscriminator p = 0 \<longleftrightarrow> session p = SESSION_DOWN) \<and>
     (pollSequence p \<longrightarrow> session p = SESSION_UP) \<and>
     75 \<le> txJitterPct p \<and> txJitterPct p \<le> (if multiplier p = 1 then 90 else 100)"

definition bfd_armed :: "bfdPeer \<Rightarrow> bool" where
  "bfd_armed p \<longleftrightarrow>
     (if finished p then eventTx p = None \<and> eventExpiry p = None \<and> udpClient p = None
      else eventTx p = Some (lastTx p + jitteredTxInterval p) \<and>
           (eventExpiry p = None \<longleftrightarrow> session p = SESSION_DOWN) \<and>
           (\<forall>t d. eventExpiry p = Some (t, d) \<longrightarrow> 0 < d))"

definition bfd_inv :: "bfdPeer \<Rightarrow> bool" where
  "bfd_inv p \<longleftrightarrow> bfd_core p \<and> bfd_armed p"

lemma randRange_bounds: "lo \<le> hi \<Longrightarrow> lo \<le> randRange env k lo hi \<and> randRange env k lo hi \<le> hi"
  by (simp add: randRange_def) (smt (verit) pos_mod_bound)

lemma randomBFDMyDiscriminator_nonzero: "randomBFDMyDiscriminator vs = Some v \<Longrightarrow> v \<noteq> 0"
  by (induction vs) (auto split: if_splits)

text \<open>What \<open>sendPacket\<close> leaves alone: everything but its counters and the log.\<close>

lemma sendPacket_frame [simp]:
  "session (sendPacket env st poll final your p) = session p"
  "peerAddress (sendPacket env st poll final your p) = peerAddress p"
  "udpClient (sendPacket env st poll final your p) = udpClient p"
  "myDiscriminator (sendPacket env st poll final your p) = myDiscriminator p"
  "yourDiscriminator (sendPacket env st poll final your p) = yourDiscriminator p"
  "multiplier (sendPacket env st poll final your p) = multiplier p"
  "rxInterval (sendPacket env st poll final your p) = rxInterval p"
  "txInterval (sendPacket env st poll final your p) = txInterval p"
  "desiredMinTx (sendPacket env st poll final your p) = desiredMinTx p"
  "remoteMinRxInterval (sendPacket env st poll final your p) = remoteMinRxInterval p"
  "expiryInterval (sendPacket env st poll final your p) = expiryInterval p"
  "lastTx (sendPacket env st poll final your p) = lastTx p"
  "txJitterPct (sendPacket env st poll final your p) = txJitterPct p"
  "pollSequence (sendPacket env st poll final your p) = pollSequence p"
  "eventTx (sendPacket env st poll final your p) = eventTx p"
  "eventExpiry (sendPacket env st poll final your p) = eventExpiry p"
  "eventRxPacket (sendPacket env st poll final your p) = eventRxPacket p"
  "finished (sendPacket env st poll final your p) = finished p"
  "stopped (sendPacket env st poll final your p) = stopped p"
  "resets (sendPacket env st poll final your p) = resets p"
  "draws (sendPacket env st poll final your p) = draws p"
  "rxPackets (sendPacket env st poll final your p) = rxPackets p"
  by (simp_all add: sendPacket_def Let_def split: sum.split)

lemma sendPacket_jittered [simp]:
  "jitteredTxInterval (sendPacket env st poll final your p) = jitteredTxInterval p"
  by (simp add: jitteredTxInterval_def effectiveTxInterval_def)

lemma bfd_core_sendPacket [simp]: "bfd_core (sendPacket env st poll final your p) = bfd_core p"
  by (simp add: bfd_core_def)

lemma tx_frame [simp]:
  "session (tx env p) = session p"
  "udpClient (tx env p) = udpClient p"
  "myDiscriminator (tx env p) = myDiscriminator p"
  "yourDiscriminator (tx env p) = yourDiscriminator p"
  "multiplier (tx env p) = multiplier p"
  "rxInterval (tx env p) = rxInterval p"
  "txInterval (tx env p) = txInterval p"
  "desiredMinTx (tx env p) = desiredMinTx p"
  "remoteMinRxInterval (tx env p) = remoteMinRxInterval p"
  "expiryInterval (tx env p) = expiryInterval p"
  "lastTx (tx env p) = now env"
  "pollSequence (tx env p) = pollSequence p"
  "eventExpiry (tx env p) = eventExpiry p"
  "eventRxPacket (tx env p) = eventRxPacket p"
  "finished (tx env p) = finished p"
  "stopped (tx env p) = stopped p"
  "resets (tx env p) = resets p"
  "rxPackets (tx env p) = rxPackets p"
  by (simp_all add: tx_def drawTxJitter_def Let_def split: session_state.split)

lemma tx_jitter:
  "75 \<le> txJitterPct (tx env p)" "txJitterPct (tx env p) \<le> (if multiplier p = 1 then 90 else 100)"
  using randRange_bounds [of 75 90 env "draws p"] randRange_bounds [of 75 100 env "draws p"]
  by (simp_all add: tx_def drawTxJitter_def Let_def split: session_state.split)

lemma tx_armed: "eventTx (tx env p) = Some (now env + jitteredTxInterval (tx env p))"
  by (simp add: tx_def Let_def jitteredTxInterval_def effectiveTxInterval_def split: session_state.split)

lemma bfd_core_tx: "bfd_core p \<Longrightarrow> bfd_core (tx env p)"
  using tx_jitter [of env p] by (simp add: bfd_core_def)

lemma bfd_core_armTx: "bfd_core p \<Longrightarrow> bfd_core (armTx env p)"
  by (simp add: armTx_def Let_def bfd_core_tx) (simp add: bfd_core_def)

lemma armTx_armed: "eventTx (armTx env p) = Some (lastTx (armTx env p) + jitteredTxInterval (armTx env p))"
  by (simp add: armTx_def Let_def tx_armed) (simp add: jitteredTxInterval_def effectiveTxInterval_def)

lemma armTx_frame [simp]:
  "session (armTx env p) = session p" "finished (armTx env p) = finished p"
  "eventExpiry (armTx env p) = eventExpiry p" "resets (armTx env p) = resets p"
  "yourDiscriminator (armTx env p) = yourDiscriminator p"
  "expiryInterval (armTx env p) = expiryInterval p"
  "udpClient (armTx env p) = udpClient p"
  "desiredMinTx (armTx env p) = desiredMinTx p" "pollSequence (armTx env p) = pollSequence p"
  "myDiscriminator (armTx env p) = myDiscriminator p"
  by (simp_all add: armTx_def Let_def)

lemma setState_core:
  assumes "bfd_core p"
  shows "bfd_core (setStateDown env p)"
    and "session p = SESSION_DOWN \<Longrightarrow> d \<noteq> 0 \<Longrightarrow> bfd_core (setStateInit env d p)"
    and "d \<noteq> 0 \<Longrightarrow> bfd_core (setStateUp env d p)"
  using assms
  by (auto simp: setStateDown_def setStateInit_def setStateUp_def setDesiredMinTx_def Let_def
      intro!: bfd_core_tx) (auto simp: bfd_core_def)

lemma bfd_core_eventExpiry [simp]: "bfd_core (p\<lparr>eventExpiry := e\<rparr>) = bfd_core p"
  by (simp add: bfd_core_def)

lemma bfd_core_resetPeer [simp]: "bfd_core (resetPeer p) = bfd_core p"
  by (simp add: resetPeer_def bfd_core_def)

lemma setState_timers [simp]:
  "session (setStateDown env p) = SESSION_DOWN"
  "session (setStateInit env d p) = SESSION_INIT"
  "session (setStateUp env d p) = SESSION_UP"
  "eventExpiry (setStateDown env p) = None"
  "eventExpiry (setStateInit env d p) = eventExpiry p"
  "eventExpiry (setStateUp env d p) = Some (now env + expiryInterval p, expiryInterval p)"
  "finished (setStateDown env p) = finished p"
  "finished (setStateInit env d p) = finished p"
  "finished (setStateUp env d p) = finished p"
  "expiryInterval (setStateDown env p) = expiryInterval p"
  "expiryInterval (setStateInit env d p) = expiryInterval p"
  "expiryInterval (setStateUp env d p) = expiryInterval p"
  "resets (setStateDown env p) = resets p"
  "resets (setStateInit env d p) = resets p"
  "resets (setStateUp env d p) = resets p"
  by (simp_all add: setStateDown_def setStateInit_def setStateUp_def setDesiredMinTx_def Let_def)

lemma setStateDown_armed: "bfd_core p \<Longrightarrow> \<not> finished p \<Longrightarrow> bfd_armed (setStateDown env p)"
  by (simp add: bfd_armed_def) (simp add: setStateDown_def setDesiredMinTx_def Let_def tx_armed)

lemma uint_pos: "w \<noteq> 0 \<Longrightarrow> 1 \<le> uint w"
  by (metis int_one_le_iff_zero_less order_le_less uint_0_iff uint_nonnegative)

lemma micros_bounds:
  fixes w :: u32
  shows "0 \<le> uint w * 1000" "uint w * 1000 \<le> 4294967295000" "w \<noteq> 0 \<Longrightarrow> 1000 \<le> uint w * 1000"
  using uint_bounded [of w] uint_pos [of w] by auto

lemma detection_bounds:
  fixes m :: u8
  assumes "m \<noteq> 0" and "1000 \<le> n" and "n \<le> 4294967295000"
  shows "1000 \<le> uint m * n" "uint m * n \<le> 255 * 4294967295000"
proof -
  have m: "1 \<le> uint m" "uint m \<le> 255"
    using assms(1) uint_bounded [of m] uint_pos [of m] by auto
  show "1000 \<le> uint m * n" using mult_mono [of 1 "uint m" 1000 n] m assms by simp
  show "uint m * n \<le> 255 * 4294967295000"
    using mult_mono [of "uint m" 255 n 4294967295000] m assms by simp
qed

lemma bfd_core_negotiate:
  assumes "bfd_core p" and "DetectTimeMultiplier h \<noteq> 0"
  shows "bfd_core (rx_negotiate h p)"
proof -
  define n where "n = (if uint (DesiredMinTxInterval h) * 1000 > rxInterval p
    then uint (DesiredMinTxInterval h) * 1000 else rxInterval p)"
  have "1000 \<le> n" "n \<le> 4294967295000"
    using assms(1) micros_bounds [of "DesiredMinTxInterval h"] by (auto simp: n_def bfd_core_def)
  note detection_bounds [OF assms(2) this]
  then show ?thesis
    using assms(1) micros_bounds [of "RequiredMinRxInterval h"]
    by (simp add: bfd_core_def rx_negotiate_def Let_def flip: n_def)
qed

lemma rx_negotiate_frame [simp]:
  "session (rx_negotiate h p) = session p" "finished (rx_negotiate h p) = finished p"
  "eventExpiry (rx_negotiate h p) = eventExpiry p" "resets (rx_negotiate h p) = resets p"
  by (simp_all add: rx_negotiate_def Let_def)

lemma bfd_core_rx_state:
  assumes "bfd_core p" and "MyDiscriminator h \<noteq> 0"
  shows "bfd_core (rx_state env h p)"
  using assms by (auto simp: rx_state_def remoteDown_def setState_core split: session_state.split)

lemma rx_state_finished [simp]: "finished (rx_state env h p) = finished p"
  by (simp add: rx_state_def remoteDown_def resetPeer_def split: session_state.split)

lemma rx_state_down_expiry:
  "session (rx_state env h p) = SESSION_DOWN \<Longrightarrow> (session p = SESSION_DOWN \<Longrightarrow> eventExpiry p = None) \<Longrightarrow>
   eventExpiry (rx_state env h p) = None"
  by (auto simp: rx_state_def remoteDown_def split: session_state.splits if_splits)

lemma bfd_inv_rxPacket:
  assumes inv: "bfd_inv p" and run: "\<not> finished p"
  shows "bfd_inv (rxPacket env h p)"
proof (cases "DetectTimeMultiplier h = 0 \<or> MyDiscriminator h = 0 \<or> \<not> rx_accepts p h")
  case True
  then show ?thesis
    using inv by (auto simp: rxPacket_def bfd_inv_def bfd_core_def bfd_armed_def
        jitteredTxInterval_def effectiveTxInterval_def)
next
  case False
  define q where "q = rx_state env h (rx_negotiate h p)"
  define q1 where "q1 = rx_reply env h q"
  define q2 where "q2 = rx_rearm env q1"
  have r: "rxPacket env h p = armTx env q2"
    using False by (simp add: rxPacket_def q2_def q1_def q_def)
  have core: "bfd_core q"
    using inv False by (simp add: q_def bfd_inv_def bfd_core_rx_state bfd_core_negotiate)
  then have core2: "bfd_core q2" by (simp add: q2_def q1_def rx_rearm_def rx_reply_def)
  have fin: "\<not> finished q2" using run by (simp add: q2_def q1_def q_def rx_rearm_def rx_reply_def)
  have "eventExpiry q = None" if "session q = SESSION_DOWN"
    using inv run rx_state_down_expiry [OF that [unfolded q_def]]
    by (simp add: q_def bfd_inv_def bfd_armed_def)
  then have "(eventExpiry q2 = None \<longleftrightarrow> session q2 = SESSION_DOWN) \<and>
      (\<forall>t d. eventExpiry q2 = Some (t, d) \<longrightarrow> 0 < d)"
    using core by (auto simp: q2_def q1_def rx_rearm_def rx_reply_def bfd_core_def)
  then show ?thesis
    using fin core2 by (simp add: r bfd_inv_def bfd_core_armTx bfd_armed_def armTx_armed)
qed

lemma bfd_core_new:
  assumes "newBfdPeer env rands peer config local = Some p"
  shows "bfd_core p"
proof -
  obtain disc where disc: "randomBFDMyDiscriminator rands = Some disc"
    using assms by (auto simp: newBfdPeer_def split: option.splits)
  define mult where "mult = (if cfg_DetectionMultiplier config > 0 then cfg_DetectionMultiplier config else 3)"
  define rx where "rx = (if cfg_RequiredMinimumReceive config > 0
    then uint (cfg_RequiredMinimumReceive config) * Microsecond else Second)"
  define txi where "txi = (if cfg_DesiredMinimumTxInterval config > 0
    then uint (cfg_DesiredMinimumTxInterval config) * Microsecond else Second)"
  have bounds: "mult \<noteq> 0" "1000 \<le> rx" "rx \<le> 4294967295000" "1000 \<le> txi" "txi \<le> 4294967295000"
    using micros_bounds [of "cfg_RequiredMinimumReceive config"]
      micros_bounds [of "cfg_DesiredMinimumTxInterval config"]
    by (auto simp: mult_def rx_def txi_def)
  have p: "p = (drawTxJitter env q)\<lparr>eventTx := e\<rparr> \<longrightarrow> bfd_core q' \<longrightarrow> bfd_core p"
    if "q' = q\<lparr>txJitterPct := 75\<rparr>" for q q' e
    using that randRange_bounds [of 75 90 env "draws q"] randRange_bounds [of 75 100 env "draws q"]
    by (simp add: drawTxJitter_def Let_def bfd_core_def)
  show ?thesis
    using assms
    unfolding newBfdPeer_def disc option.case Let_def mult_def [symmetric] rx_def [symmetric]
      txi_def [symmetric] option.inject
    by (rule p [OF refl, rule_format, OF sym])
      (use bounds detection_bounds [OF bounds(1-3)] randomBFDMyDiscriminator_nonzero [OF disc] in
        \<open>simp add: bfd_core_def\<close>)
qed

lemma bfd_inv_new: "newBfdPeer env rands peer config local = Some p \<Longrightarrow> bfd_inv p"
  unfolding bfd_inv_def
  by (intro conjI bfd_core_new)
    (auto simp: newBfdPeer_def Let_def drawTxJitter_def bfd_armed_def jitteredTxInterval_def
      effectiveTxInterval_def split: option.splits)

lemma bfd_inv_tx: "bfd_inv p \<Longrightarrow> \<not> finished p \<Longrightarrow> bfd_inv (tx env p)"
  by (simp add: bfd_inv_def bfd_core_tx bfd_armed_def tx_armed)

lemma bfd_core_expired [simp]: "bfd_core (p\<lparr>expired := n\<rparr>) = bfd_core p"
  by (simp add: bfd_core_def)

lemmas bfd_inv_unfold = bfd_inv_def bfd_core_def bfd_armed_def jitteredTxInterval_def effectiveTxInterval_def

lemma bfd_inv_client:
  assumes "bfd_inv p" and "\<not> finished p"
  shows "bfd_inv (p\<lparr>udpClient := u, startArmed := b, draws := n\<rparr>)"
  using assms by (simp add: bfd_inv_unfold)

lemma bfd_inv_expiry:
  assumes "bfd_inv p" and "\<not> finished p"
  shows "bfd_inv (expiry env p)"
proof (cases "session p = SESSION_DOWN")
  case True
  then have "eventExpiry p = None" using assms by (simp add: bfd_inv_def bfd_armed_def)
  then show ?thesis using True assms by (simp add: expiry_def bfd_inv_unfold)
next
  case False
  define q where "q = resetPeer (p\<lparr>expired := expired p + 1\<rparr>)"
  have "bfd_core q" "\<not> finished q" using assms by (simp_all add: q_def bfd_inv_def resetPeer_def bfd_core_def)
  then show ?thesis using False
    by (simp add: expiry_def bfd_inv_def setState_core(1) setStateDown_armed flip: q_def)
qed

lemma bfd_inv_start:
  assumes "bfd_inv p" and "\<not> finished p"
  shows "bfd_inv (bfd_loop env EvStart p)"
proof -
  have "\<exists>u b n. bfd_loop env EvStart p = p\<lparr>udpClient := u, startArmed := b, draws := n\<rparr>"
    by (rule exI [of _ "udpClient (bfd_loop env EvStart p)"],
        rule exI [of _ "startArmed (bfd_loop env EvStart p)"],
        rule exI [of _ "draws (bfd_loop env EvStart p)"])
      (simp add: start_def startClient_def Let_def)
  then show ?thesis using bfd_inv_client [OF assms] by auto
qed

lemma bfd_inv_shutdown: "bfd_inv p \<Longrightarrow> bfd_inv ((shutdown p)\<lparr>finished := True\<rparr>)"
  by (auto simp: shutdown_def stop_def bfd_inv_def bfd_core_def bfd_armed_def)

lemma bfd_inv_channel [simp]:
  "bfd_inv (p\<lparr>eventRxPacket := c\<rparr>) = bfd_inv p" "bfd_inv (p\<lparr>stopped := b\<rparr>) = bfd_inv p"
  by (simp_all add: bfd_inv_def bfd_core_def bfd_armed_def jitteredTxInterval_def effectiveTxInterval_def)

lemma bfd_inv_loop: "bfd_inv p \<Longrightarrow> bfd_enabled env ev p \<Longrightarrow> bfd_inv (bfd_loop env ev p)"
  by (cases ev)
    (auto simp: bfd_inv_tx bfd_inv_expiry bfd_inv_shutdown bfd_inv_rxPacket
      simp del: bfd_loop.simps(1) intro: bfd_inv_start)

lemma bfd_reach_inv_aux: "bfd_reach p \<Longrightarrow> bfd_inv p"
  by (induction rule: bfd_reach.induct)
    (simp_all add: bfd_inv_new bfd_inv_loop Rx_def Stop_def)

subsection \<open>What leaves the peer\<close>

definition sent_ok :: "bfdPeer \<Rightarrow> BFDHeader \<Rightarrow> bool" where
  "sent_ok p h \<longleftrightarrow>
     Version h = 1 \<and> Diagnostic h = 0 \<and> State h \<in> {StateDown, StateInit, StateUp} \<and>
     MyDiscriminator h = myDiscriminator p \<and> MyDiscriminator h \<noteq> 0 \<and>
     DetectTimeMultiplier h = multiplier p \<and> DetectTimeMultiplier h \<noteq> 0 \<and>
     (State h \<noteq> StateUp \<longrightarrow> 1000000 \<le> DesiredMinTxInterval h) \<and>
     (YourDiscriminator h = 0 \<longrightarrow> State h = StateDown) \<and>
     (Poll h \<longrightarrow> State h = StateUp \<and> \<not> Final h)"

definition all_sent_ok :: "bfdPeer \<Rightarrow> bool" where
  "all_sent_ok p \<longleftrightarrow> (\<forall>(t, h) \<in> set (sent p). sent_ok p h)"

lemma advertised_slow:
  assumes "1000000000 \<le> d" and "d \<le> 4294967295000"
  shows "1000000 \<le> (word_of_int (d div 1000) :: u32)"
proof -
  have "1000000 \<le> d div 1000" "d div 1000 < 4294967296" using assms by linarith+
  then show ?thesis by (simp add: word_le_def take_bit_int_eq_self unsigned_of_int)
qed

lemma all_sent_ok_sendPacket:
  assumes "bfd_core p" and "all_sent_ok p" and "st = sessionStateToWire p"
    and "your = 0 \<longrightarrow> session p = SESSION_DOWN" and "poll \<longrightarrow> session p = SESSION_UP \<and> \<not> final"
  shows "all_sent_ok (sendPacket env st poll final your p)"
proof -
  have slow: "1000000 \<le> (word_of_int (desiredMinTx p div 1000) :: u32)" if "session p \<noteq> SESSION_UP"
    using assms(1) that by (intro advertised_slow) (auto simp: bfd_core_def)
  have st: "st \<in> {StateDown, StateInit, StateUp}" "st = StateUp \<longleftrightarrow> session p = SESSION_UP"
    "session p = SESSION_DOWN \<longrightarrow> st = StateDown"
    using assms(1,3) by (auto simp: bfd_core_def sessionStateToWire_def)
  have old: "\<forall>(t, h) \<in> set (sent p). sent_ok q h"
    if "myDiscriminator q = myDiscriminator p" "multiplier q = multiplier p" for q
    using assms(2) that by (auto simp: all_sent_ok_def sent_ok_def)
  define pkt where "pkt = \<lparr>Version = 1, Diagnostic = 0, State = st, Poll = poll, Final = final,
    DetectTimeMultiplier = multiplier p, MyDiscriminator = myDiscriminator p,
    YourDiscriminator = your, DesiredMinTxInterval = word_of_int (desiredMinTx p div Microsecond),
    RequiredMinRxInterval = word_of_int (rxInterval p div Microsecond)\<rparr>"
  define q where "q = sendPacket env st poll final your p"
  have "set (sent q) \<subseteq> insert (now env, pkt) (set (sent p))"
    by (auto simp: q_def sendPacket_def Let_def pkt_def split: sum.split)
  moreover have "sent_ok q pkt"
    unfolding sent_ok_def using assms(1) st slow assms(4,5)
    by (simp add: pkt_def q_def) (auto simp: bfd_core_def)
  moreover have "\<forall>(t, h) \<in> set (sent p). sent_ok q h"
    by (rule old) (simp_all add: q_def)
  ultimately show ?thesis unfolding q_def [symmetric] all_sent_ok_def by blast
qed

lemma all_sent_ok_cong:
  "sent q = sent p \<Longrightarrow> myDiscriminator q = myDiscriminator p \<Longrightarrow> multiplier q = multiplier p \<Longrightarrow>
   all_sent_ok q = all_sent_ok p"
  by (simp add: all_sent_ok_def sent_ok_def)

lemma all_sent_ok_tx:
  assumes "bfd_core p" and "all_sent_ok p"
  shows "all_sent_ok (tx env p)"
proof -
  define q where "q = (let p1 = drawTxJitter env (p\<lparr>lastTx := now env\<rparr>)
    in p1\<lparr>eventTx := Some (now env + jitteredTxInterval p1)\<rparr>)"
  have q: "session q = session p" "yourDiscriminator q = yourDiscriminator p"
    "pollSequence q = pollSequence p" "sent q = sent p" "myDiscriminator q = myDiscriminator p"
    "multiplier q = multiplier p"
    by (simp_all add: q_def drawTxJitter_def Let_def)
  have core: "bfd_core q"
    using assms(1) randRange_bounds [of 75 90 env "draws p"] randRange_bounds [of 75 100 env "draws p"]
    by (simp add: q_def drawTxJitter_def Let_def bfd_core_def)
  have ok: "all_sent_ok q" using assms(2) all_sent_ok_cong [of q p] q by simp
  have "tx env p = sendPacket env (sessionStateToWire q) (pollSequence q) False (yourDiscriminator q) q"
    using assms(1) q
    by (auto simp: tx_def q_def [unfolded Let_def] Let_def sessionStateToWire_def bfd_core_def)
  then show ?thesis
    using core by (simp add: all_sent_ok_sendPacket [OF core ok refl] bfd_core_def)
qed

lemma all_sent_ok_armTx:
  assumes "bfd_core p" and "all_sent_ok p"
  shows "all_sent_ok (armTx env p)"
  using assms all_sent_ok_cong [of "p\<lparr>eventTx := e\<rparr>" p for e]
  by (simp add: armTx_def Let_def all_sent_ok_tx)

lemma all_sent_ok_setState:
  assumes core: "bfd_core p" and ok: "all_sent_ok p"
  shows "all_sent_ok (setStateDown env p)"
    and "session p = SESSION_DOWN \<Longrightarrow> d \<noteq> 0 \<Longrightarrow> all_sent_ok (setStateInit env d p)"
    and "d \<noteq> 0 \<Longrightarrow> all_sent_ok (setStateUp env d p)"
proof -
  have step: "all_sent_ok (tx env q)"
    if "bfd_core q" "sent q = sent p" "myDiscriminator q = myDiscriminator p" "multiplier q = multiplier p" for q
    using that ok all_sent_ok_cong [of q p] by (simp add: all_sent_ok_tx)
  show "all_sent_ok (setStateDown env p)"
    unfolding setStateDown_def Let_def setDesiredMinTx_def
    by (rule step) (use core in \<open>auto simp: bfd_core_def\<close>)
  show "all_sent_ok (setStateInit env d p)" if "session p = SESSION_DOWN" "d \<noteq> 0"
    unfolding setStateInit_def by (rule step) (use core that in \<open>auto simp: bfd_core_def\<close>)
  show "all_sent_ok (setStateUp env d p)" if "d \<noteq> 0"
    unfolding setStateUp_def Let_def setDesiredMinTx_def
    by (rule step) (use core that in \<open>auto simp: bfd_core_def\<close>)
qed

lemma all_sent_ok_resetPeer [simp]: "all_sent_ok (resetPeer p) = all_sent_ok p"
  by (rule all_sent_ok_cong) (simp_all add: resetPeer_def)

lemma all_sent_ok_rx_state:
  assumes "bfd_core p" and "all_sent_ok p" and "MyDiscriminator h \<noteq> 0"
  shows "all_sent_ok (rx_state env h p)"
  using assms
  by (simp add: rx_state_def remoteDown_def all_sent_ok_setState split: session_state.split)

lemma all_sent_ok_rxPacket:
  assumes core: "bfd_core p" and ok: "all_sent_ok p"
  shows "all_sent_ok (rxPacket env h p)"
proof (cases "DetectTimeMultiplier h = 0 \<or> MyDiscriminator h = 0 \<or> \<not> rx_accepts p h")
  case True
  then show ?thesis
    using ok by (auto simp: rxPacket_def all_sent_ok_def sent_ok_def)
next
  case False
  define q where "q = rx_state env h (rx_negotiate h p)"
  define q1 where "q1 = rx_reply env h q"
  define q2 where "q2 = rx_rearm env q1"
  have "all_sent_ok (rx_negotiate h p)"
    using ok all_sent_ok_cong [of "rx_negotiate h p" p] by (simp add: rx_negotiate_def Let_def)
  then have q: "bfd_core q" "all_sent_ok q"
    using core False unfolding q_def
    by (simp_all add: bfd_core_rx_state bfd_core_negotiate all_sent_ok_rx_state)
  have "all_sent_ok q1"
    using q False by (simp add: q1_def rx_reply_def all_sent_ok_sendPacket)
  then have "all_sent_ok q2"
    using all_sent_ok_cong [of q2 q1] by (simp add: q2_def rx_rearm_def)
  moreover have "bfd_core q2" using q by (simp add: q2_def q1_def rx_rearm_def rx_reply_def)
  ultimately have "all_sent_ok (armTx env q2)" by (rule all_sent_ok_armTx [rotated])
  then show ?thesis
    using False by (simp add: rxPacket_def q2_def q1_def q_def)
qed

lemma all_sent_ok_expiry:
  assumes "bfd_core p" and "all_sent_ok p"
  shows "all_sent_ok (expiry env p)"
  using assms all_sent_ok_cong [of "p\<lparr>expired := n\<rparr>" p for n]
    all_sent_ok_cong [of "p\<lparr>eventExpiry := n\<rparr>" p for n]
  by (simp add: expiry_def all_sent_ok_setState)

lemma all_sent_ok_channel [simp]:
  "all_sent_ok (p\<lparr>eventRxPacket := c\<rparr>) = all_sent_ok p" "all_sent_ok (p\<lparr>stopped := b\<rparr>) = all_sent_ok p"
  by (simp_all add: all_sent_ok_def sent_ok_def)

lemma bfd_core_channel [simp]:
  "bfd_core (p\<lparr>eventRxPacket := c\<rparr>) = bfd_core p"
  by (simp add: bfd_core_def)

lemma all_sent_ok_loop:
  assumes "bfd_core p" and "all_sent_ok p"
  shows "all_sent_ok (bfd_loop env ev p)"
proof (cases ev)
  case EvStart
  have "all_sent_ok (bfd_loop env EvStart p) = all_sent_ok p"
    by (rule all_sent_ok_cong) (simp_all add: start_def startClient_def Let_def)
  then show ?thesis using EvStart assms by simp
next
  case EvRxPacket
  then show ?thesis using assms by (auto simp: all_sent_ok_rxPacket split: option.split)
next
  case EvShutdown
  have "all_sent_ok (bfd_loop env EvShutdown p) = all_sent_ok p"
    by (rule all_sent_ok_cong) (simp_all add: shutdown_def stop_def)
  then show ?thesis using EvShutdown assms by simp
qed (use assms in \<open>simp_all add: all_sent_ok_tx all_sent_ok_expiry\<close>)

lemma all_sent_ok_new: "newBfdPeer env rands peer config local = Some p \<Longrightarrow> all_sent_ok p"
  by (auto simp: newBfdPeer_def Let_def drawTxJitter_def all_sent_ok_def split: option.splits)

lemma bfd_reach_sent_aux: "bfd_reach p \<Longrightarrow> all_sent_ok p"
proof (induction rule: bfd_reach.induct)
  case (loop p env ev)
  then show ?case using bfd_reach_inv_aux [of p] by (simp add: all_sent_ok_loop bfd_inv_def)
qed (simp_all add: all_sent_ok_new Rx_def Stop_def)

subsection \<open>Properties of a session\<close>

lemma rx_state_resets:
  assumes "bfd_core p"
  shows "resets (rx_state env h p) =
    resets p + (if session p \<noteq> SESSION_DOWN \<and> session (rx_state env h p) = SESSION_DOWN then 1 else 0)"
  using assms by (auto simp: rx_state_def remoteDown_def resetPeer_def bfd_core_def split: session_state.split)

lemma rx_tail_frame [simp]:
  "resets (rx_rearm env (rx_reply env h p)) = resets p"
  "session (rx_rearm env (rx_reply env h p)) = session p"
  by (simp_all add: rx_rearm_def rx_reply_def)

lemma rxPacket_resets:
  assumes "bfd_core p"
  shows "resets (rxPacket env h p) =
    resets p + (if session p \<noteq> SESSION_DOWN \<and> session (rxPacket env h p) = SESSION_DOWN then 1 else 0)"
proof (cases "DetectTimeMultiplier h = 0 \<or> MyDiscriminator h = 0 \<or> \<not> rx_accepts p h")
  case True
  then show ?thesis by (auto simp: rxPacket_def)
next
  case False
  then show ?thesis
    using rx_state_resets [OF bfd_core_negotiate [OF assms], of h env h] by (simp add: rxPacket_def)
qed

lemma expiry_resets:
  "resets (expiry env p) =
    resets p + (if session p \<noteq> SESSION_DOWN \<and> session (expiry env p) = SESSION_DOWN then 1 else 0)"
  by (simp add: expiry_def resetPeer_def)

text \<open>The last packet written tells the remote where the session is.\<close>

definition announces :: "bfdPeer \<Rightarrow> bool" where
  "announces p \<longleftrightarrow> sent p \<noteq> [] \<and>
     (let h = snd (hd (sent p)) in
        State h = sessionStateToWire p \<and> MyDiscriminator h = myDiscriminator p \<and>
        YourDiscriminator h = yourDiscriminator p \<and> DetectTimeMultiplier h = multiplier p \<and>
        Poll h = pollSequence p)"

lemma sendPacket_sends:
  assumes "udpClient p \<noteq> None" and "st \<le> 3" and "write_ok env (writes p)"
  shows "\<exists>h. sent (sendPacket env st poll final your p) = (now env, h) # sent p \<and> State h = st \<and>
    MyDiscriminator h = myDiscriminator p \<and> YourDiscriminator h = your \<and>
    DetectTimeMultiplier h = multiplier p \<and> Poll h = poll"
proof -
  define h where "h = \<lparr>Version = 1, Diagnostic = 0, State = st, Poll = poll, Final = final,
    DetectTimeMultiplier = multiplier p, MyDiscriminator = myDiscriminator p,
    YourDiscriminator = your, DesiredMinTxInterval = word_of_int (desiredMinTx p div Microsecond),
    RequiredMinRxInterval = word_of_int (rxInterval p div Microsecond)\<rparr>"
  have "Validate h = Inr ()" using assms(2) by (simp add: Validate_ok h_def)
  then obtain buf where "MarshalBinary h = Inr buf" using bfd_codec.enc_dec by blast
  then have "sent (sendPacket env st poll final your p) = (now env, h) # sent p"
    using assms(1,3) by (simp add: sendPacket_def Let_def flip: h_def)
  then show ?thesis by (simp add: h_def)
qed

lemma tx_announces:
  assumes "bfd_core p" and "udpClient p \<noteq> None" and "\<forall>k. write_ok env k"
  shows "announces (tx env p)"
proof -
  define q where "q = (let p1 = drawTxJitter env (p\<lparr>lastTx := now env\<rparr>)
    in p1\<lparr>eventTx := Some (now env + jitteredTxInterval p1)\<rparr>)"
  have q: "session q = session p" "yourDiscriminator q = yourDiscriminator p"
    "pollSequence q = pollSequence p" "udpClient q = udpClient p"
    by (simp_all add: q_def drawTxJitter_def Let_def)
  have tx: "tx env p = sendPacket env (sessionStateToWire q) (pollSequence q) False (yourDiscriminator q) q"
    using assms(1) q
    by (auto simp: tx_def q_def [unfolded Let_def] Let_def sessionStateToWire_def bfd_core_def)
  have "sessionStateToWire q \<le> 3" by (simp add: sessionStateToWire_def split: session_state.split)
  then obtain h where "sent (tx env p) = (now env, h) # sent q" "State h = sessionStateToWire q"
    "MyDiscriminator h = myDiscriminator q" "YourDiscriminator h = yourDiscriminator q"
    "DetectTimeMultiplier h = multiplier q" "Poll h = pollSequence q"
    using sendPacket_sends [of q "sessionStateToWire q" env] assms(2,3) q unfolding tx by metis
  then show ?thesis by (simp add: announces_def tx sessionStateToWire_def)
qed

lemma armTx_announces:
  assumes "bfd_core p" and "udpClient p \<noteq> None" and "\<forall>k. write_ok env k" and "announces p"
  shows "announces (armTx env p)"
  using assms by (simp add: armTx_def Let_def tx_announces)
    (simp add: announces_def sessionStateToWire_def Let_def)

lemma setState_pre:
  assumes "bfd_core p" and "d \<noteq> 0"
  shows "session p = SESSION_DOWN \<Longrightarrow>
      \<exists>q. setStateInit env d p = tx env q \<and> bfd_core q \<and> udpClient q = udpClient p \<and>
        yourDiscriminator q = d \<and> \<not> pollSequence q \<and> myDiscriminator q = myDiscriminator p \<and>
        multiplier q = multiplier p"
    and "\<exists>q. setStateUp env d p = tx env q \<and> bfd_core q \<and> udpClient q = udpClient p \<and>
        yourDiscriminator q = d \<and> myDiscriminator q = myDiscriminator p \<and> multiplier q = multiplier p"
proof -
  show "\<exists>q. setStateInit env d p = tx env q \<and> bfd_core q \<and> udpClient q = udpClient p \<and>
      yourDiscriminator q = d \<and> \<not> pollSequence q \<and> myDiscriminator q = myDiscriminator p \<and>
      multiplier q = multiplier p" if "session p = SESSION_DOWN"
    unfolding setStateInit_def by (rule exI, rule conjI, rule refl) (use assms that in \<open>auto simp: bfd_core_def\<close>)
  show "\<exists>q. setStateUp env d p = tx env q \<and> bfd_core q \<and> udpClient q = udpClient p \<and>
      yourDiscriminator q = d \<and> myDiscriminator q = myDiscriminator p \<and> multiplier q = multiplier p"
    unfolding setStateUp_def setDesiredMinTx_def Let_def
    by (rule exI, rule conjI, rule refl) (use assms in \<open>auto simp: bfd_core_def\<close>)
qed

lemma rx_transition:
  assumes "bfd_core p" and "udpClient p \<noteq> None" and "\<forall>k. write_ok env k"
    and "DetectTimeMultiplier h \<noteq> 0" and "MyDiscriminator h \<noteq> 0" and "rx_accepts p h"
    and tr: "rx_state env h (rx_negotiate h p) = tx env q" and "bfd_core q"
    and "udpClient q = udpClient p" and "yourDiscriminator q = MyDiscriminator h"
    and "myDiscriminator q = myDiscriminator p" and "multiplier q = multiplier p" and "\<not> Poll h"
  shows "announces (rxPacket env h p) \<and> bfd_core (rxPacket env h p) \<and> session (rxPacket env h p) = session q \<and>
    yourDiscriminator (rxPacket env h p) = MyDiscriminator h \<and> udpClient (rxPacket env h p) = udpClient p \<and>
    myDiscriminator (rxPacket env h p) = myDiscriminator p"
proof -
  define r where "r = rx_rearm env (tx env q)"
  have rx: "rxPacket env h p = armTx env r"
    using assms by (simp add: rxPacket_def rx_reply_def r_def)
  have "announces (tx env q)" using assms by (simp add: tx_announces)
  then have "announces r" by (simp add: r_def rx_rearm_def announces_def sessionStateToWire_def Let_def)
  moreover have "bfd_core r" using assms(8) by (simp add: r_def rx_rearm_def bfd_core_tx)
  moreover have "udpClient r = udpClient p" "session r = session q" "yourDiscriminator r = MyDiscriminator h"
    "myDiscriminator r = myDiscriminator p"
    using assms by (simp_all add: r_def rx_rearm_def)
  ultimately show ?thesis
    using assms(2,3) by (simp add: rx armTx_announces bfd_core_armTx)
qed

lemma rx_negotiate_more [simp]:
  "udpClient (rx_negotiate h p) = udpClient p" "myDiscriminator (rx_negotiate h p) = myDiscriminator p"
  "multiplier (rx_negotiate h p) = multiplier p"
  by (simp_all add: rx_negotiate_def Let_def)

lemma rx_down_to_init:
  assumes "bfd_core p" and "udpClient p \<noteq> None" and "\<forall>k. write_ok env k"
    and h: "DetectTimeMultiplier h \<noteq> 0" "MyDiscriminator h \<noteq> 0" "YourDiscriminator h = 0"
    and "session p = SESSION_DOWN" and "State h = StateDown" and "\<not> Poll h"
  shows "announces (rxPacket env h p) \<and> bfd_core (rxPacket env h p) \<and>
    session (rxPacket env h p) = SESSION_INIT \<and> yourDiscriminator (rxPacket env h p) = MyDiscriminator h \<and>
    udpClient (rxPacket env h p) = udpClient p \<and> myDiscriminator (rxPacket env h p) = myDiscriminator p"
proof -
  obtain q where q: "setStateInit env (MyDiscriminator h) (rx_negotiate h p) = tx env q" "bfd_core q"
    "udpClient q = udpClient p" "yourDiscriminator q = MyDiscriminator h"
    "myDiscriminator q = myDiscriminator p" "multiplier q = multiplier p"
    using setState_pre(1) [OF bfd_core_negotiate [OF assms(1) h(1)] h(2)] assms(7) by auto
  have "session q = SESSION_INIT"
    using arg_cong [OF q(1), of session] by simp
  moreover have "rx_state env h (rx_negotiate h p) = tx env q"
    using assms(7,8) q(1) by (simp add: rx_state_def)
  moreover have "rx_accepts p h" using assms by (simp add: rx_accepts_def bfd_core_def)
  ultimately show ?thesis
    using rx_transition [OF assms(1-3) h(1,2) _ _ q(2-6) assms(9)] by simp
qed

lemma rx_to_up:
  assumes "bfd_core p" and "udpClient p \<noteq> None" and "\<forall>k. write_ok env k"
    and h: "DetectTimeMultiplier h \<noteq> 0" "MyDiscriminator h \<noteq> 0" "YourDiscriminator h = myDiscriminator p"
    and "session p = SESSION_DOWN \<and> State h = StateInit \<or> session p = SESSION_INIT \<and> State h \<in> {StateInit, StateUp}"
    and "\<not> Poll h"
  shows "announces (rxPacket env h p) \<and> bfd_core (rxPacket env h p) \<and>
    session (rxPacket env h p) = SESSION_UP \<and> yourDiscriminator (rxPacket env h p) = MyDiscriminator h \<and>
    udpClient (rxPacket env h p) = udpClient p \<and> myDiscriminator (rxPacket env h p) = myDiscriminator p"
proof -
  obtain q where q: "setStateUp env (MyDiscriminator h) (rx_negotiate h p) = tx env q" "bfd_core q"
    "udpClient q = udpClient p" "yourDiscriminator q = MyDiscriminator h"
    "myDiscriminator q = myDiscriminator p" "multiplier q = multiplier p"
    using setState_pre(2) [OF bfd_core_negotiate [OF assms(1) h(1)] h(2), of env] by auto
  have "session q = SESSION_UP"
    using arg_cong [OF q(1), of session] by simp
  moreover have "rx_state env h (rx_negotiate h p) = tx env q"
    using assms(7) q(1) by (auto simp: rx_state_def)
  moreover have "rx_accepts p h" using assms by (simp add: rx_accepts_def bfd_core_def)
  ultimately show ?thesis
    using rx_transition [OF assms(1-3) h(1,2) _ _ q(2-6) assms(8)] by simp
qed

lemma rx_up_session:
  assumes "bfd_core p" and "DetectTimeMultiplier h \<noteq> 0" and "MyDiscriminator h \<noteq> 0"
    and "YourDiscriminator h = myDiscriminator p" and "session p = SESSION_INIT" and "State h = StateUp"
  shows "session (rxPacket env h p) = SESSION_UP \<and>
    yourDiscriminator (rxPacket env h p) = MyDiscriminator h"
  using assms
  by (simp add: rxPacket_def rx_accepts_def rx_state_def bfd_core_def)
    (simp add: rx_rearm_def rx_reply_def setStateUp_def setDesiredMinTx_def Let_def)

text \<open>A concrete peer, for the examples: a fresh one, one whose socket is open, and one that an
  Init packet of remote \<open>77\<close> has taken Up.\<close>

definition ex_env :: "int \<Rightarrow> bfd_env" where
  "ex_env t = \<lparr>now = t, raw_rand = (\<lambda>_. 5), write_ok = (\<lambda>_. True), dial_ok = True, ttl_ok = True\<rparr>"

definition ex_config :: BfdConfig where
  "ex_config = \<lparr>cfg_Port = 0, cfg_DesiredMinimumTxInterval = 300000,
     cfg_RequiredMinimumReceive = 300000, cfg_DetectionMultiplier = 3\<rparr>"

definition ex_new :: "u32 \<Rightarrow> bfdPeer" where
  "ex_new d = the (newBfdPeer (ex_env 0) [0, d] (Addr4 1) ex_config AddrNone)"

definition ex_down :: "u32 \<Rightarrow> bfdPeer" where
  "ex_down d = bfd_loop (ex_env 1) EvStart (ex_new d)"

definition ex_init_packet :: BFDHeader where
  "ex_init_packet = \<lparr>Version = 1, Diagnostic = 0, State = StateInit, Poll = False, Final = False,
     DetectTimeMultiplier = 3, MyDiscriminator = 77, YourDiscriminator = 42,
     DesiredMinTxInterval = 1000000, RequiredMinRxInterval = 300000\<rparr>"

definition ex_up :: bfdPeer where
  "ex_up = bfd_loop (ex_env 2) EvRxPacket (fst (Rx ex_init_packet (ex_down 42)))"

lemmas ex_defs = ex_env_def ex_config_def ex_new_def ex_down_def ex_init_packet_def ex_up_def

lemma ex_new_reach: "d \<noteq> 0 \<Longrightarrow> bfd_reach (ex_new d)"
  by (rule bfd_reach.new [of "ex_env 0" "[0, d]" "Addr4 1" ex_config AddrNone])
    (simp add: ex_new_def newBfdPeer_def Let_def)

lemma ex_down_reach: "d \<noteq> 0 \<Longrightarrow> bfd_reach (ex_down d)"
  unfolding ex_down_def
  by (rule bfd_reach.loop [OF ex_new_reach]) (simp_all add: ex_new_def newBfdPeer_def drawTxJitter_def Let_def)

lemma ex_down_enabled: "bfd_enabled (ex_env 2) EvRxPacket (fst (Rx ex_init_packet (ex_down 42)))"
  by code_simp

lemma ex_up_reach: "bfd_reach ex_up"
  unfolding ex_up_def
  by (rule bfd_reach.loop [OF bfd_reach.Rx [OF ex_down_reach] ex_down_enabled]) simp

text \<open>C24: The BGP session is reset exactly when BFD loses the session: an iteration of the
  event loop of a reachable peer calls \<open>ResetPeer\<close> once if it takes the session from Init or Up
  to Down, and not at all otherwise.\<close>

theorem bfd_reset_iff_lost:
  assumes "bfd_reach p" and "bfd_enabled env ev p"
  shows "resets (bfd_loop env ev p) = resets p +
    (if session p \<noteq> SESSION_DOWN \<and> session (bfd_loop env ev p) = SESSION_DOWN then 1 else 0)"
proof -
  have "bfd_core p" using bfd_reach_inv_aux [OF assms(1)] by (simp add: bfd_inv_def)
  then show ?thesis
    using rxPacket_resets [of "p\<lparr>eventRxPacket := None\<rparr>" env]
    by (cases ev) (auto simp: expiry_resets start_def startClient_def shutdown_def stop_def Let_def
        split: option.split)
qed

theorem bfd_reset_iff_lost_witness:
  "bfd_enabled (ex_env 9000000000) EvExpiry ex_up \<and>
   resets (bfd_loop (ex_env 9000000000) EvExpiry ex_up) = resets ex_up + 1"
proof -
  have e: "bfd_enabled (ex_env 9000000000) EvExpiry ex_up" by code_simp
  have s: "session ex_up = SESSION_UP" by code_simp
  show ?thesis using bfd_reset_iff_lost [OF ex_up_reach e] e s by (simp add: expiry_def)
qed

text \<open>C23: In every reachable peer the session is Down, Init or Up; a Down session has no
  remote discriminator, no Poll Sequence and no detection timer; a session that is not Up
  wants at least one second between packets; the transmit timer is armed for the pacing
  deadline of the last transmission; no ticker runs with a period that would panic.\<close>

theorem bfd_session_invariant: "bfd_reach p \<Longrightarrow> bfd_inv p"
  by (rule bfd_reach_inv_aux)

theorem bfd_session_invariant_witness: "session ex_up = SESSION_UP \<and> bfd_inv ex_up"
proof
  show "session ex_up = SESSION_UP" by code_simp
  show "bfd_inv ex_up" by (rule bfd_session_invariant [OF ex_up_reach])
qed

text \<open>C25: Every packet a reachable peer has written has version 1, the discriminator and the
  multiplier of the peer, both not zero, an advertised interval of at least one second unless it says Up,
  a zero remote discriminator only if it says Down, and the Poll bit only if it says Up and never with the
  Final bit; and the receiver decodes from the wire the header that was sent. Its diagnostic
  is always 0, also after the detection time expired or the remote signalled Down, where RFC 5880
  (6.8.4, 6.8.6) wants 1 or 3: on the diagnostic the peer deviates from the RFC.\<close>

theorem bfd_sent_wellformed:
  assumes "bfd_reach p" and "(t, h) \<in> set (sent p)"
  shows "sent_ok p h \<and> (\<exists>buf. MarshalBinary h = Inr buf \<and> UnmarshalBinary buf = Inr h)"
proof -
  have ok: "sent_ok p h" using bfd_reach_sent_aux [OF assms(1)] assms(2) by (auto simp: all_sent_ok_def)
  then have "Validate h = Inr ()" by (auto simp: sent_ok_def Validate_ok)
  then show ?thesis using ok bfd_codec.enc_dec by blast
qed

theorem bfd_sent_wellformed_witness:
  "\<exists>t h. (t, h) \<in> set (sent ex_up) \<and> sent_ok ex_up h \<and>
    (\<exists>buf. MarshalBinary h = Inr buf \<and> UnmarshalBinary buf = Inr h)"
proof -
  have "sent ex_up \<noteq> []" by code_simp
  then have "(fst (hd (sent ex_up)), snd (hd (sent ex_up))) \<in> set (sent ex_up)" by simp
  then show ?thesis using bfd_sent_wellformed [OF ex_up_reach] by blast
qed

text \<open>C27: The periodic timer of a reachable peer never fires sooner after the last
  transmission than 75 percent of the larger of its own interval and the one the remote
  requires, and the products behind the deadlines stay in the range of \<open>int64\<close>.\<close>

theorem bfd_pacing:
  assumes "bfd_reach p" and "bfd_enabled env EvTx p"
  shows "desiredMinTx p * 75 div 100 \<le> now env - lastTx p \<and>
    remoteMinRxInterval p * 75 div 100 \<le> now env - lastTx p \<and>
    0 \<le> effectiveTxInterval p * txJitterPct p \<and> effectiveTxInterval p * txJitterPct p < 2 ^ 63 \<and>
    0 < expiryInterval p \<and> expiryInterval p < 2 ^ 63"
proof -
  have core: "bfd_core p" and due: "lastTx p + jitteredTxInterval p \<le> now env"
    using bfd_reach_inv_aux [OF assms(1)] assms(2) by (auto simp: bfd_inv_def bfd_armed_def)
  define e where "e = effectiveTxInterval p"
  have e: "0 \<le> e" "e \<le> 4294967295000" "desiredMinTx p \<le> e" "remoteMinRxInterval p \<le> e"
    using core by (auto simp: e_def effectiveTxInterval_def bfd_core_def)
  have j: "75 \<le> txJitterPct p" "txJitterPct p \<le> 100"
    using core by (auto simp: bfd_core_def split: if_splits)
  have "e * 75 div 100 \<le> e * txJitterPct p div 100"
    using e j by (intro zdiv_mono1 mult_left_mono) auto
  moreover have "d * 75 div 100 \<le> e * 75 div 100" if "d \<le> e" for d
    using that by (intro zdiv_mono1) auto
  moreover have "0 \<le> e * txJitterPct p" "e * txJitterPct p \<le> 4294967295000 * 100"
    using e j mult_mono [of e 4294967295000 "txJitterPct p" 100] by simp_all
  ultimately show ?thesis
    using due e core unfolding jitteredTxInterval_def e_def [symmetric]
    by (auto simp: bfd_core_def intro: order_trans)
qed

theorem bfd_pacing_witness:
  "bfd_enabled (ex_env 240000002) EvTx ex_up \<and>
   desiredMinTx ex_up * 75 div 100 \<le> now (ex_env 240000002) - lastTx ex_up"
proof -
  have e: "bfd_enabled (ex_env 240000002) EvTx ex_up" by code_simp
  show ?thesis using bfd_pacing [OF ex_up_reach e] e by simp
qed

text \<open>C28: A packet that knows neither discriminator of an established session cannot
  disturb it: the session, its timers and its packets stay as they were, and BGP is not reset.\<close>

theorem bfd_spoof_ignored:
  assumes "bfd_reach p" and "session p = SESSION_UP"
    and "YourDiscriminator h \<noteq> myDiscriminator p" and "MyDiscriminator h \<noteq> yourDiscriminator p"
  shows "session (rxPacket env h p) = SESSION_UP \<and> resets (rxPacket env h p) = resets p \<and>
    eventTx (rxPacket env h p) = eventTx p \<and> eventExpiry (rxPacket env h p) = eventExpiry p \<and>
    expiryInterval (rxPacket env h p) = expiryInterval p \<and> sent (rxPacket env h p) = sent p"
proof -
  have "yourDiscriminator p \<noteq> 0"
    using bfd_reach_inv_aux [OF assms(1)] assms(2) by (simp add: bfd_inv_def bfd_core_def)
  then have "\<not> rx_accepts p h" using assms(3,4) by (auto simp: rx_accepts_def)
  then show ?thesis using assms(2) by (simp add: rxPacket_def)
qed

theorem bfd_spoof_ignored_witness:
  "session (rxPacket (ex_env 3) (ex_init_packet\<lparr>State := StateDown, MyDiscriminator := 5, YourDiscriminator := 0\<rparr>)
     ex_up) = SESSION_UP"
proof -
  have u: "session ex_up = SESSION_UP" and y: "0 \<noteq> myDiscriminator ex_up" "5 \<noteq> yourDiscriminator ex_up"
    by code_simp+
  show ?thesis
    using bfd_spoof_ignored [OF ex_up_reach u, of "ex_init_packet\<lparr>State := StateDown, MyDiscriminator := 5,
      YourDiscriminator := 0\<rparr>" "ex_env 3"] y by simp
qed

text \<open>C26: The detection timer follows RFC 5880, 6.8.4: a packet that is accepted and does not leave
  the session Down arms it for the remote multiplier times the larger of the local
  receive interval and the remote transmit interval, and it cannot expire before. The user
  documentation gives the product of the local receive interval and the local multiplier instead.\<close>

theorem bfd_detection_time:
  assumes "DetectTimeMultiplier h \<noteq> 0" and "MyDiscriminator h \<noteq> 0" and "rx_accepts p h"
    and "bfd_reach p" and "session (rxPacket env h p) \<noteq> SESSION_DOWN"
    and "now env' < now env + uint (DetectTimeMultiplier h) * max (rxInterval p) (uint (DesiredMinTxInterval h) * 1000)"
  shows "eventExpiry (rxPacket env h p) =
      Some (now env + uint (DetectTimeMultiplier h) * max (rxInterval p) (uint (DesiredMinTxInterval h) * 1000),
            uint (DetectTimeMultiplier h) * max (rxInterval p) (uint (DesiredMinTxInterval h) * 1000)) \<and>
    \<not> bfd_enabled env' EvExpiry (rxPacket env h p)"
proof -
  define q where "q = rx_state env h (rx_negotiate h p)"
  have "bfd_core q"
    using assms bfd_reach_inv_aux [OF assms(4)]
    by (simp add: q_def bfd_inv_def bfd_core_rx_state bfd_core_negotiate)
  moreover have rx: "rxPacket env h p = armTx env (rx_rearm env (rx_reply env h q))"
    using assms(1-3) by (simp add: rxPacket_def q_def)
  ultimately have "session q = SESSION_INIT \<or> session q = SESSION_UP"
    using assms(5) by (auto simp: bfd_core_def)
  moreover have "expiryInterval q = expiryInterval (rx_negotiate h p)"
    by (simp add: q_def rx_state_def remoteDown_def resetPeer_def split: session_state.split)
  ultimately show ?thesis
    using assms(6) by (auto simp: rx rx_rearm_def rx_reply_def rx_negotiate_def Let_def max_def)
qed

theorem bfd_detection_time_witness:
  "\<not> bfd_enabled (ex_env 3000000001) EvExpiry (rxPacket (ex_env 2) ex_init_packet (ex_down 42))"
proof -
  have "DetectTimeMultiplier ex_init_packet \<noteq> 0" "MyDiscriminator ex_init_packet \<noteq> 0"
    "rx_accepts (ex_down 42) ex_init_packet"
    "session (rxPacket (ex_env 2) ex_init_packet (ex_down 42)) \<noteq> SESSION_DOWN"
    "now (ex_env 3000000001) < now (ex_env 2) + uint (DetectTimeMultiplier ex_init_packet) *
       max (rxInterval (ex_down 42)) (uint (DesiredMinTxInterval ex_init_packet) * 1000)"
    by code_simp+
  then show ?thesis using bfd_detection_time [OF _ _ _ ex_down_reach [of 42]] by simp
qed

lemma announcedD:
  assumes "announces p" and "bfd_core p"
  shows "State (snd (hd (sent p))) = sessionStateToWire p" "MyDiscriminator (snd (hd (sent p))) = myDiscriminator p"
    "YourDiscriminator (snd (hd (sent p))) = yourDiscriminator p"
    "DetectTimeMultiplier (snd (hd (sent p))) \<noteq> 0" "MyDiscriminator (snd (hd (sent p))) \<noteq> 0"
    "session p = SESSION_DOWN \<Longrightarrow> YourDiscriminator (snd (hd (sent p))) = 0"
    "session p \<noteq> SESSION_UP \<Longrightarrow> \<not> Poll (snd (hd (sent p)))"
  using assms by (auto simp: announces_def bfd_core_def Let_def)

text \<open>C22: The three-way handshake completes. Two peers that are Down, with a socket each and
  a network that loses nothing, both reach Up, each bound to the discriminator of the other, when the
  first transmits and then each receives the last packet the other wrote.\<close>

theorem bfd_handshake:
  assumes "bfd_reach a" and "bfd_reach b" and "udpClient a \<noteq> None" and "udpClient b \<noteq> None"
    and "session a = SESSION_DOWN" and "session b = SESSION_DOWN" and "\<forall>k. write_ok env k"
  shows "let a1 = tx env a;
             b1 = rxPacket env (snd (hd (sent a1))) b;
             a2 = rxPacket env (snd (hd (sent b1))) a1;
             b2 = rxPacket env (snd (hd (sent a2))) b1
         in session a2 = SESSION_UP \<and> session b2 = SESSION_UP \<and>
            yourDiscriminator a2 = myDiscriminator b \<and> yourDiscriminator b2 = myDiscriminator a"
proof -
  have core: "bfd_core a" "bfd_core b"
    using bfd_reach_inv_aux assms(1,2) by (auto simp: bfd_inv_def)
  define a1 where "a1 = tx env a"
  define b1 where "b1 = rxPacket env (snd (hd (sent a1))) b"
  define a2 where "a2 = rxPacket env (snd (hd (sent b1))) a1"
  define b2 where "b2 = rxPacket env (snd (hd (sent a2))) b1"
  have a1: "announces a1" "bfd_core a1" "session a1 = SESSION_DOWN" "udpClient a1 \<noteq> None"
    "myDiscriminator a1 = myDiscriminator a"
    using core assms by (simp_all add: a1_def tx_announces bfd_core_tx)
  note pa1 = announcedD [OF a1(1,2)]
  have b1: "announces b1" "bfd_core b1" "session b1 = SESSION_INIT" "myDiscriminator b1 = myDiscriminator b"
    "yourDiscriminator b1 = myDiscriminator a"
    using rx_down_to_init [OF core(2) assms(4,7) pa1(4,5) pa1(6) [OF a1(3)] assms(6)] a1 pa1(1,2,7)
    by (simp_all add: b1_def sessionStateToWire_def)
  note pb1 = announcedD [OF b1(1,2)]
  have a2: "announces a2" "bfd_core a2" "session a2 = SESSION_UP" "myDiscriminator a2 = myDiscriminator a"
    "yourDiscriminator a2 = myDiscriminator b"
    using rx_to_up [OF a1(2,4) assms(7) pb1(4,5)] a1 b1 pb1(1-3,7)
    by (simp_all add: a2_def sessionStateToWire_def)
  note pa2 = announcedD [OF a2(1,2)]
  have "session b2 = SESSION_UP \<and> yourDiscriminator b2 = myDiscriminator a"
    using rx_up_session [OF b1(2) pa2(4,5) _ b1(3)] a2 b1 pa2(1-3)
    by (simp add: b2_def sessionStateToWire_def)
  then show ?thesis using a2 by (simp add: Let_def flip: a1_def b1_def a2_def b2_def)
qed

theorem bfd_handshake_witness:
  "let a1 = tx (ex_env 2) (ex_down 42);
       b1 = rxPacket (ex_env 2) (snd (hd (sent a1))) (ex_down 77);
       a2 = rxPacket (ex_env 2) (snd (hd (sent b1))) a1
   in session a2 = SESSION_UP \<and> yourDiscriminator a2 = myDiscriminator (ex_down 77)"
proof -
  have "udpClient (ex_down 42) \<noteq> None" "udpClient (ex_down 77) \<noteq> None"
    "session (ex_down 42) = SESSION_DOWN" "session (ex_down 77) = SESSION_DOWN" by code_simp+
  then show ?thesis
    using bfd_handshake [OF ex_down_reach [of 42] ex_down_reach [of 77], of "ex_env 2"]
    by (simp add: Let_def ex_env_def)
qed

end
