(* ===== verification/Bgp_Attr.thy ===== *)
theory Bgp_Attr
  imports Prelude Netip
begin

section \<open>Path attributes: \<open>pkg/packet/bgp/bgp.go\<close>, \<open>validate.go\<close>\<close>

text \<open>
  The path attributes of an UPDATE: the common header with its flag rules, the AS_PATH
  segments in both encodings, and the codecs of the attributes the routing table reads.

  \<^item> An attribute is its header (\<open>PathAttribute\<close>) with its value. The value of an
    attribute whose own codec is not modelled (tunnel encapsulation, PMSI, AIGP, link state,
    prefix SID, MP_UNREACH_NLRI, the AS4 attributes, IPv6 extended communities) is the
    string of bytes it has on the wire (\<open>PathAttributeOpaque\<close>); of MP_REACH_NLRI
    the next hops are kept beside those bytes. An extended community is its two type bytes and
    the six bytes that follow.
  \<^item> \<open>NewMessageError\<close> is the pair of its error code and subcode.
  \<^item> The one marshalling option the AS_PATH decoder looks at, \<open>Use2ByteAS\<close>, is an
    argument.
\<close>

type_synonym message_error = "u8 \<times> u8"

abbreviation (input) "BGP_ATTR_FLAG_EXTENDED_LENGTH \<equiv> (0x10 :: u8)"
abbreviation (input) "BGP_ATTR_FLAG_PARTIAL \<equiv> (0x20 :: u8)"
abbreviation (input) "BGP_ATTR_FLAG_TRANSITIVE \<equiv> (0x40 :: u8)"
abbreviation (input) "BGP_ATTR_FLAG_OPTIONAL \<equiv> (0x80 :: u8)"

abbreviation (input) "BGP_ATTR_TYPE_ORIGIN \<equiv> (1 :: u8)"
abbreviation (input) "BGP_ATTR_TYPE_AS_PATH \<equiv> (2 :: u8)"
abbreviation (input) "BGP_ATTR_TYPE_NEXT_HOP \<equiv> (3 :: u8)"
abbreviation (input) "BGP_ATTR_TYPE_MULTI_EXIT_DISC \<equiv> (4 :: u8)"
abbreviation (input) "BGP_ATTR_TYPE_LOCAL_PREF \<equiv> (5 :: u8)"
abbreviation (input) "BGP_ATTR_TYPE_ATOMIC_AGGREGATE \<equiv> (6 :: u8)"
abbreviation (input) "BGP_ATTR_TYPE_AGGREGATOR \<equiv> (7 :: u8)"
abbreviation (input) "BGP_ATTR_TYPE_COMMUNITIES \<equiv> (8 :: u8)"
abbreviation (input) "BGP_ATTR_TYPE_ORIGINATOR_ID \<equiv> (9 :: u8)"
abbreviation (input) "BGP_ATTR_TYPE_CLUSTER_LIST \<equiv> (10 :: u8)"
abbreviation (input) "BGP_ATTR_TYPE_MP_REACH_NLRI \<equiv> (14 :: u8)"
abbreviation (input) "BGP_ATTR_TYPE_EXTENDED_COMMUNITIES \<equiv> (16 :: u8)"
abbreviation (input) "BGP_ATTR_TYPE_LARGE_COMMUNITY \<equiv> (32 :: u8)"

abbreviation (input) "BGP_ASPATH_ATTR_TYPE_SET \<equiv> (1 :: u8)"
abbreviation (input) "BGP_ASPATH_ATTR_TYPE_SEQ \<equiv> (2 :: u8)"
abbreviation (input) "BGP_ASPATH_ATTR_TYPE_CONFED_SEQ \<equiv> (3 :: u8)"
abbreviation (input) "BGP_ASPATH_ATTR_TYPE_CONFED_SET \<equiv> (4 :: u8)"

abbreviation (input) "BGP_ERROR_UPDATE_MESSAGE_ERROR \<equiv> (3 :: u8)"
abbreviation (input) "ERR_MALFORMED_ATTRIBUTE_LIST \<equiv> (BGP_ERROR_UPDATE_MESSAGE_ERROR, 1 :: u8)"
abbreviation (input) "ERR_ATTRIBUTE_FLAGS \<equiv> (BGP_ERROR_UPDATE_MESSAGE_ERROR, 4 :: u8)"
abbreviation (input) "ERR_ATTRIBUTE_LENGTH \<equiv> (BGP_ERROR_UPDATE_MESSAGE_ERROR, 5 :: u8)"
abbreviation (input) "ERR_INVALID_NEXT_HOP \<equiv> (BGP_ERROR_UPDATE_MESSAGE_ERROR, 8 :: u8)"
abbreviation (input) "ERR_MALFORMED_AS_PATH \<equiv> (BGP_ERROR_UPDATE_MESSAGE_ERROR, 11 :: u8)"

record PathAttribute =
  Flags :: u8
  Type :: u8
  Length :: u16

datatype as_param =
    AsPathParam u8 u8 "u16 list"
  | As4PathParam u8 u8 "u32 list"

datatype as_kind = KindUint16 | KindUint32

datatype ext_community = ExtCommunity u8 u8 bytes

datatype LargeCommunity = LargeCommunity u32 u32 u32

datatype attr_value =
    PathAttributeOrigin u8
  | PathAttributeAsPath "as_param list"
  | PathAttributeNextHop addr
  | PathAttributeMultiExitDisc u32
  | PathAttributeLocalPref u32
  | PathAttributeAtomicAggregate
  | PathAttributeAggregator u32 as_kind addr
  | PathAttributeCommunities "u32 list"
  | PathAttributeOriginatorId addr
  | PathAttributeClusterList "addr list"
  | PathAttributeMpReachNLRI addr addr bytes
  | PathAttributeExtendedCommunities "ext_community list"
  | PathAttributeLargeCommunities "LargeCommunity list"
  | PathAttributeUnknown bytes
  | PathAttributeOpaque bytes

record path_attr =
  attr_hdr :: PathAttribute
  attr_value :: attr_value

definition GetType :: "path_attr \<Rightarrow> u8" where
  "GetType a = Type (attr_hdr a)"

definition GetFlags :: "path_attr \<Rightarrow> u8" where
  "GetFlags a = Flags (attr_hdr a)"

definition PathAttribute_Len :: "PathAttribute \<Rightarrow> nat" where
  "PathAttribute_Len p =
     (if Flags p AND BGP_ATTR_FLAG_EXTENDED_LENGTH \<noteq> 0 then 4 + unat (Length p) else 3 + unat (Length p))"

subsection \<open>Flags\<close>

definition PathAttrFlags :: "(u8 \<times> u8) list" where
  "PathAttrFlags =
     [(1, 0x40), (2, 0x40), (3, 0x40), (4, 0x80), (5, 0x40), (6, 0x40), (7, 0xC0), (8, 0xC0),
      (9, 0x80), (10, 0x80), (14, 0x80), (15, 0x80), (16, 0xC0), (17, 0xC0), (18, 0xC0),
      (22, 0xC0), (23, 0xC0), (25, 0xC0), (26, 0x80), (32, 0xC0), (29, 0x80), (40, 0xC0)]"

text \<open>Reading a Go map at a key it does not have gives the zero value.\<close>

definition path_attr_flag :: "u8 \<Rightarrow> u8" where
  "path_attr_flag t = (case map_of PathAttrFlags t of None \<Rightarrow> 0 | Some f \<Rightarrow> f)"

definition getPathAttrFlags :: "u8 \<Rightarrow> nat \<Rightarrow> u8" where
  "getPathAttrFlags typ len =
     (let flags = path_attr_flag typ
      in if len > 255 then flags OR BGP_ATTR_FLAG_EXTENDED_LENGTH else flags)"

definition validatePathAttributeFlags :: "u8 \<Rightarrow> u8 \<Rightarrow> bool" where
  "validatePathAttributeFlags t flags =
     (if flags AND BGP_ATTR_FLAG_OPTIONAL = 0 \<and> flags AND BGP_ATTR_FLAG_TRANSITIVE = 0 then False
      else if flags AND BGP_ATTR_FLAG_OPTIONAL = 0 \<and> flags AND BGP_ATTR_FLAG_PARTIAL \<noteq> 0 then False
      else if flags AND BGP_ATTR_FLAG_OPTIONAL \<noteq> 0 \<and> flags AND BGP_ATTR_FLAG_TRANSITIVE = 0 \<and>
              flags AND BGP_ATTR_FLAG_PARTIAL \<noteq> 0 then False
      else case map_of PathAttrFlags t of
             Some f \<Rightarrow> f = flags AND NOT BGP_ATTR_FLAG_EXTENDED_LENGTH AND NOT BGP_ATTR_FLAG_PARTIAL
           | None \<Rightarrow> True)"

subsection \<open>The header\<close>

definition PathAttribute_Decode :: "bytes \<Rightarrow> (message_error, PathAttribute \<times> bytes) res" where
  "PathAttribute_Decode data =
     guard_err (length data < 2) ERR_ATTRIBUTE_LENGTH
    (rbind (get_u8 data 0) (\<lambda>flags.
     rbind (get_u8 data 1) (\<lambda>typ.
     rbind (if flags AND BGP_ATTR_FLAG_EXTENDED_LENGTH \<noteq> 0
            then guard_err (length data < 4) ERR_ATTRIBUTE_LENGTH
                   (rbind (get_u16 data 2) (\<lambda>l. rbind (slice data 4 (length data)) (\<lambda>d. Inr (l, d))))
            else guard_err (length data < 3) ERR_ATTRIBUTE_LENGTH
                   (rbind (get_u8 data 2) (\<lambda>l. rbind (slice data 3 (length data)) (\<lambda>d. Inr (ucast l, d)))))
       (\<lambda>(l, d).
     guard_err (length d < unat l) ERR_ATTRIBUTE_LENGTH
    (guard_err (\<not> validatePathAttributeFlags typ flags) ERR_ATTRIBUTE_FLAGS
    (rbind (slice d 0 (unat l)) (\<lambda>value.
       Inr (\<lparr>Flags = flags, Type = typ, Length = l\<rparr>, value))))))))"

definition PathAttribute_Serialize :: "PathAttribute \<Rightarrow> bytes \<Rightarrow> bytes" where
  "PathAttribute_Serialize p value =
     (let len = (of_nat (length value) :: u16);
          flags = (if Flags p AND BGP_ATTR_FLAG_EXTENDED_LENGTH = 0 \<and> len > 255
                   then Flags p OR BGP_ATTR_FLAG_EXTENDED_LENGTH else Flags p)
      in if flags AND BGP_ATTR_FLAG_EXTENDED_LENGTH \<noteq> 0
         then [flags, Type p] @ to_be 2 len @ value
         else [flags, Type p, ucast len] @ value)"

subsection \<open>AS_PATH segments\<close>

fun param_GetType :: "as_param \<Rightarrow> u8" where
  "param_GetType (AsPathParam t _ _) = t"
| "param_GetType (As4PathParam t _ _) = t"

fun param_GetAS :: "as_param \<Rightarrow> u32 list" where
  "param_GetAS (AsPathParam _ _ as) = map ucast as"
| "param_GetAS (As4PathParam _ _ as) = as"

fun param_Len :: "as_param \<Rightarrow> nat" where
  "param_Len (AsPathParam _ _ as) = 2 + length as * 2"
| "param_Len (As4PathParam _ _ as) = 2 + length as * 4"

definition param_ASLen :: "as_param \<Rightarrow> nat" where
  "param_ASLen a =
     (if param_GetType a = BGP_ASPATH_ATTR_TYPE_SEQ then length (param_GetAS a)
      else if param_GetType a = BGP_ASPATH_ATTR_TYPE_SET then 1
      else 0)"

fun param_Serialize :: "as_param \<Rightarrow> bytes" where
  "param_Serialize (AsPathParam t n as) = [t, n] @ concat (map (to_be 2) as)"
| "param_Serialize (As4PathParam t n as) = [t, n] @ concat (map (to_be 4) as)"

definition NewAsPathParam :: "u8 \<Rightarrow> u16 list \<Rightarrow> as_param" where
  "NewAsPathParam segType as = AsPathParam segType (of_nat (length as)) as"

definition NewAs4PathParam :: "u8 \<Rightarrow> u32 list \<Rightarrow> as_param" where
  "NewAs4PathParam segType as = As4PathParam segType (of_nat (length as)) as"

text \<open>The loops that read \<open>n\<close> numbers off the front of a slice.\<close>

fun read_u16s :: "nat \<Rightarrow> bytes \<Rightarrow> (message_error, u16 list) res" where
  "read_u16s 0 data = Inr []"
| "read_u16s (Suc n) data =
     rbind (get_u16 data 0) (\<lambda>x.
     rbind (slice data 2 (length data)) (\<lambda>d.
     rbind (read_u16s n d) (\<lambda>xs. Inr (x # xs))))"

fun read_u32s :: "nat \<Rightarrow> bytes \<Rightarrow> (message_error, u32 list) res" where
  "read_u32s 0 data = Inr []"
| "read_u32s (Suc n) data =
     rbind (get_u32 data 0) (\<lambda>x.
     rbind (slice data 4 (length data)) (\<lambda>d.
     rbind (read_u32s n d) (\<lambda>xs. Inr (x # xs))))"

definition AsPathParam_Decode :: "bytes \<Rightarrow> (message_error, as_param) res" where
  "AsPathParam_Decode data =
     guard_err (length data < 2) ERR_MALFORMED_AS_PATH
    (rbind (get_u8 data 0) (\<lambda>t.
     rbind (get_u8 data 1) (\<lambda>num.
     rbind (slice data 2 (length data)) (\<lambda>d.
     guard_err (length d < unat num * 2) ERR_MALFORMED_AS_PATH
    (rbind (read_u16s (unat num) d) (\<lambda>as. Inr (AsPathParam t num as)))))))"

definition As4PathParam_Decode :: "bytes \<Rightarrow> (message_error, as_param) res" where
  "As4PathParam_Decode data =
     guard_err (length data < 2) ERR_MALFORMED_AS_PATH
    (rbind (get_u8 data 0) (\<lambda>t.
     rbind (get_u8 data 1) (\<lambda>num.
     rbind (slice data 2 (length data)) (\<lambda>d.
     guard_err (length d < unat num * 4) ERR_MALFORMED_AS_PATH
    (rbind (read_u32s (unat num) d) (\<lambda>as. Inr (As4PathParam t num as)))))))"

text \<open>The structure check that runs before the segments are decoded.\<close>

function validate_segments :: "bool \<Rightarrow> bytes \<Rightarrow> (message_error, unit) res" where
  "validate_segments use4 d =
     (if d = [] then Inr ()
      else if length d < 2 then Inl (Err ERR_MALFORMED_AS_PATH)
      else if d ! 0 = 0 \<or> d ! 0 > 4 then Inl (Err ERR_MALFORMED_AS_PATH)
      else if d ! 1 = 0 then Inl (Err ERR_MALFORMED_AS_PATH)
      else let segLength = unat (d ! 1) * (if use4 then 4 else 2)
           in if segLength > length (drop 2 d) then Inl (Err ERR_MALFORMED_AS_PATH)
              else validate_segments use4 (drop segLength (drop 2 d)))"
  by pat_completeness auto
termination by (relation "measure (\<lambda>(_, d). length d)") auto

definition validateAsPathValueBytes :: "bool \<Rightarrow> bytes \<Rightarrow> (message_error, bool) res" where
  "validateAsPathValueBytes use2ByteAS data =
     guard_err (length data mod 2 \<noteq> 0) ERR_MALFORMED_AS_PATH
    (rbind (validate_segments (\<not> use2ByteAS) data) (\<lambda>_. Inr (\<not> use2ByteAS)))"

function decode_params :: "bool \<Rightarrow> bytes \<Rightarrow> (message_error, as_param list) res" where
  "decode_params isAs4 value =
     (if value = [] then Inr []
      else case (if isAs4 then As4PathParam_Decode value else AsPathParam_Decode value) of
             Inl e \<Rightarrow> Inl e
           | Inr tuple \<Rightarrow>
               if param_Len tuple > length value then Inl Panic
               else case decode_params isAs4 (drop (param_Len tuple) value) of
                      Inl e \<Rightarrow> Inl e
                    | Inr ps \<Rightarrow> Inr (tuple # ps))"
  by pat_completeness auto
termination
proof (relation "measure (\<lambda>(_, d). length d)", goal_cases)
  case (2 isAs4 v tuple)
  have "0 < param_Len tuple" by (cases tuple) simp_all
  then show ?case using 2 by simp
qed simp

declare validate_segments.simps [simp del] decode_params.simps [simp del]

subsection \<open>The attributes\<close>

text \<open>The value bytes of an attribute, as its \<open>Serialize\<close> method builds them.\<close>

fun aggregator_bytes :: "u32 \<Rightarrow> as_kind \<Rightarrow> addr \<Rightarrow> (message_error, bytes) res" where
  "aggregator_bytes as KindUint16 a =
     rbind (put_bytes 0 (to_be 2 (ucast as :: u16)) (make_bytes 6)) (\<lambda>buf.
     copy_bytes 2 6 (AsSlice a) buf)"
| "aggregator_bytes as KindUint32 a =
     rbind (put_bytes 0 (to_be 4 as) (make_bytes 8)) (\<lambda>buf. copy_bytes 4 8 (AsSlice a) buf)"

fun cluster_bytes :: "nat \<Rightarrow> addr list \<Rightarrow> bytes \<Rightarrow> (message_error, bytes) res" where
  "cluster_bytes i [] buf = Inr buf"
| "cluster_bytes i (v # vs) buf =
     rbind (copy_bytes (i * 4) (length buf) (AsSlice v) buf) (\<lambda>buf. cluster_bytes (i + 1) vs buf)"

fun LargeCommunity_Serialize :: "LargeCommunity \<Rightarrow> bytes" where
  "LargeCommunity_Serialize (LargeCommunity asn d1 d2) = to_be 4 asn @ to_be 4 d1 @ to_be 4 d2"

fun ExtCommunity_Serialize :: "ext_community \<Rightarrow> bytes" where
  "ExtCommunity_Serialize (ExtCommunity t st v) = [t, st] @ v"

definition AsPath_Serialize :: "as_param list \<Rightarrow> bytes" where
  [simp]: "AsPath_Serialize ps = concat (map param_Serialize ps)"

definition Communities_Serialize :: "u32 list \<Rightarrow> bytes" where
  [simp]: "Communities_Serialize vs = concat (map (to_be 4) vs)"

definition OriginatorId_Serialize :: "addr \<Rightarrow> (message_error, bytes) res" where
  [simp]: "OriginatorId_Serialize a = copy_bytes 0 4 (AsSlice a) (make_bytes 4)"

definition ClusterList_Serialize :: "addr list \<Rightarrow> (message_error, bytes) res" where
  [simp]: "ClusterList_Serialize vs = cluster_bytes 0 vs (make_bytes (length vs * 4))"

definition LargeCommunities_Serialize :: "LargeCommunity list \<Rightarrow> bytes" where
  [simp]: "LargeCommunities_Serialize vs = concat (map LargeCommunity_Serialize vs)"

fun value_bytes :: "attr_value \<Rightarrow> (message_error, bytes) res" where
  "value_bytes (PathAttributeOrigin v) = Inr [v]"
| "value_bytes (PathAttributeAsPath ps) = Inr (AsPath_Serialize ps)"
| "value_bytes (PathAttributeNextHop a) = Inr (AsSlice a)"
| "value_bytes (PathAttributeMultiExitDisc v) = Inr (to_be 4 v)"
| "value_bytes (PathAttributeLocalPref v) = Inr (to_be 4 v)"
| "value_bytes PathAttributeAtomicAggregate = Inr []"
| "value_bytes (PathAttributeAggregator as k a) = aggregator_bytes as k a"
| "value_bytes (PathAttributeCommunities vs) = Inr (Communities_Serialize vs)"
| "value_bytes (PathAttributeOriginatorId a) = OriginatorId_Serialize a"
| "value_bytes (PathAttributeClusterList vs) = ClusterList_Serialize vs"
| "value_bytes (PathAttributeMpReachNLRI _ _ b) = Inr b"
| "value_bytes (PathAttributeExtendedCommunities es) = Inr (concat (map ExtCommunity_Serialize es))"
| "value_bytes (PathAttributeLargeCommunities vs) = Inr (LargeCommunities_Serialize vs)"
| "value_bytes (PathAttributeUnknown b) = Inr b"
| "value_bytes (PathAttributeOpaque b) = Inr b"

definition attr_Serialize :: "path_attr \<Rightarrow> (message_error, bytes) res" where
  "attr_Serialize a =
     rbind (value_bytes (attr_value a)) (\<lambda>b. Inr (PathAttribute_Serialize (attr_hdr a) b))"

fun read_clusters :: "nat \<Rightarrow> bytes \<Rightarrow> (message_error, addr list) res" where
  "read_clusters 0 data = Inr []"
| "read_clusters (Suc n) data =
     rbind (slice data 0 4) (\<lambda>x.
     rbind (slice data 4 (length data)) (\<lambda>d.
     rbind (read_clusters n d) (\<lambda>xs. Inr (AddrFromSlice x # xs))))"

fun read_large :: "nat \<Rightarrow> bytes \<Rightarrow> (message_error, LargeCommunity list) res" where
  "read_large 0 data = Inr []"
| "read_large (Suc n) data =
     rbind (get_u32 data 0) (\<lambda>asn.
     rbind (get_u32 data 4) (\<lambda>d1.
     rbind (get_u32 data 8) (\<lambda>d2.
     rbind (slice data 12 (length data)) (\<lambda>d.
     rbind (read_large n d) (\<lambda>xs. Inr (LargeCommunity asn d1 d2 # xs))))))"

text \<open>
  The value part of the \<open>DecodeFromBytes\<close> methods, after the header. The loops
  \<open>for len(value) >= 4\<close> run once per whole item. The types whose decoders
  are not modelled (AS4_PATH, AS4_AGGREGATOR, MP_REACH_NLRI and MP_UNREACH_NLRI, the extended
  communities, PMSI tunnel, tunnel encapsulation, AIGP, BGP-LS, prefix SID) go to the argument
  \<open>other\<close>, about which nothing is ever assumed: what is proved holds whatever is done for them.
\<close>

type_synonym other_decoder = "PathAttribute \<Rightarrow> bytes \<Rightarrow> (message_error, attr_value) res"

definition Origin_Decode :: "PathAttribute \<Rightarrow> bytes \<Rightarrow> (message_error, attr_value) res" where
  "Origin_Decode p v =
     guard_err (unat (Length p) \<noteq> 1) ERR_MALFORMED_ATTRIBUTE_LIST
       (rbind (get_u8 v 0) (\<lambda>x. Inr (PathAttributeOrigin x)))"

definition AsPath_Decode :: "bool \<Rightarrow> PathAttribute \<Rightarrow> bytes \<Rightarrow> (message_error, attr_value) res" where
  "AsPath_Decode use2ByteAS p v =
     (if unat (Length p) = 0 then Inr (PathAttributeAsPath [])
      else rbind (validateAsPathValueBytes use2ByteAS v) (\<lambda>isAs4.
           rbind (decode_params isAs4 v) (\<lambda>ps. Inr (PathAttributeAsPath ps))))"

definition NextHop_Decode :: "PathAttribute \<Rightarrow> bytes \<Rightarrow> (message_error, attr_value) res" where
  "NextHop_Decode p v =
     guard_err (unat (Length p) \<noteq> 4 \<and> unat (Length p) \<noteq> 16) ERR_ATTRIBUTE_LENGTH
       (guard_err (\<not> IsValid (AddrFromSlice v)) ERR_INVALID_NEXT_HOP
          (Inr (PathAttributeNextHop (Unmap (AddrFromSlice v)))))"

definition MultiExitDisc_Decode :: "PathAttribute \<Rightarrow> bytes \<Rightarrow> (message_error, attr_value) res" where
  "MultiExitDisc_Decode p v =
     guard_err (unat (Length p) \<noteq> 4) ERR_ATTRIBUTE_LENGTH
       (rbind (get_u32 v 0) (\<lambda>x. Inr (PathAttributeMultiExitDisc x)))"

definition LocalPref_Decode :: "PathAttribute \<Rightarrow> bytes \<Rightarrow> (message_error, attr_value) res" where
  "LocalPref_Decode p v =
     guard_err (unat (Length p) \<noteq> 4) ERR_ATTRIBUTE_LENGTH
       (rbind (get_u32 v 0) (\<lambda>x. Inr (PathAttributeLocalPref x)))"

definition AtomicAggregate_Decode :: "PathAttribute \<Rightarrow> bytes \<Rightarrow> (message_error, attr_value) res" where
  "AtomicAggregate_Decode p v =
     guard_err (unat (Length p) \<noteq> 0) ERR_ATTRIBUTE_LENGTH (Inr PathAttributeAtomicAggregate)"

definition Aggregator_Decode :: "PathAttribute \<Rightarrow> bytes \<Rightarrow> (message_error, attr_value) res" where
  "Aggregator_Decode p v =
     (if unat (Length p) = 6 then
        rbind (get_u16 v 0) (\<lambda>as. rbind (slice v 2 (length v)) (\<lambda>a.
          Inr (PathAttributeAggregator (ucast as) KindUint16 (AddrFromSlice a))))
      else if unat (Length p) = 8 then
        rbind (get_u32 v 0) (\<lambda>as. rbind (slice v 4 (length v)) (\<lambda>a.
          Inr (PathAttributeAggregator as KindUint32 (AddrFromSlice a))))
      else Inl (Err ERR_ATTRIBUTE_LENGTH))"

definition Communities_Decode :: "PathAttribute \<Rightarrow> bytes \<Rightarrow> (message_error, attr_value) res" where
  "Communities_Decode p v =
     guard_err (unat (Length p) mod 4 \<noteq> 0) ERR_ATTRIBUTE_LENGTH
       (rbind (read_u32s (length v div 4) v) (\<lambda>vs. Inr (PathAttributeCommunities vs)))"

definition OriginatorId_Decode :: "PathAttribute \<Rightarrow> bytes \<Rightarrow> (message_error, attr_value) res" where
  "OriginatorId_Decode p v =
     guard_err (unat (Length p) \<noteq> 4) ERR_ATTRIBUTE_LENGTH (Inr (PathAttributeOriginatorId (AddrFromSlice v)))"

definition ClusterList_Decode :: "PathAttribute \<Rightarrow> bytes \<Rightarrow> (message_error, attr_value) res" where
  "ClusterList_Decode p v =
     guard_err (unat (Length p) mod 4 \<noteq> 0) ERR_ATTRIBUTE_LENGTH
       (rbind (read_clusters (length v div 4) v) (\<lambda>vs. Inr (PathAttributeClusterList vs)))"

definition LargeCommunities_Decode :: "PathAttribute \<Rightarrow> bytes \<Rightarrow> (message_error, attr_value) res" where
  "LargeCommunities_Decode p v =
     guard_err (unat (Length p) mod 12 \<noteq> 0) ERR_ATTRIBUTE_LENGTH
       (rbind (read_large (length v div 12) v) (\<lambda>vs. Inr (PathAttributeLargeCommunities vs)))"

text \<open>\<open>GetPathAttribute\<close> picks the decoder by the type.\<close>

definition decode_value :: "other_decoder \<Rightarrow> bool \<Rightarrow> PathAttribute \<Rightarrow> bytes \<Rightarrow> (message_error, attr_value) res" where
  "decode_value other use2ByteAS p v =
     (let t = Type p in
      if t = BGP_ATTR_TYPE_ORIGIN then Origin_Decode p v
      else if t = BGP_ATTR_TYPE_AS_PATH then AsPath_Decode use2ByteAS p v
      else if t = BGP_ATTR_TYPE_NEXT_HOP then NextHop_Decode p v
      else if t = BGP_ATTR_TYPE_MULTI_EXIT_DISC then MultiExitDisc_Decode p v
      else if t = BGP_ATTR_TYPE_LOCAL_PREF then LocalPref_Decode p v
      else if t = BGP_ATTR_TYPE_ATOMIC_AGGREGATE then AtomicAggregate_Decode p v
      else if t = BGP_ATTR_TYPE_AGGREGATOR then Aggregator_Decode p v
      else if t = BGP_ATTR_TYPE_COMMUNITIES then Communities_Decode p v
      else if t = BGP_ATTR_TYPE_ORIGINATOR_ID then OriginatorId_Decode p v
      else if t = BGP_ATTR_TYPE_CLUSTER_LIST then ClusterList_Decode p v
      else if t = BGP_ATTR_TYPE_LARGE_COMMUNITY then LargeCommunities_Decode p v
      else if map_of PathAttrFlags t = None then Inr (PathAttributeUnknown v)
      else other p v)"

definition modelled_type :: "u8 \<Rightarrow> bool" where
  "modelled_type t \<longleftrightarrow> t \<in> {1, 2, 3, 4, 5, 6, 7, 8, 9, 10, 32} \<or> map_of PathAttrFlags t = None"

lemmas attr_decode_defs = decode_value_def Let_def Origin_Decode_def AsPath_Decode_def NextHop_Decode_def
  MultiExitDisc_Decode_def LocalPref_Decode_def AtomicAggregate_Decode_def Aggregator_Decode_def
  Communities_Decode_def OriginatorId_Decode_def ClusterList_Decode_def LargeCommunities_Decode_def

text \<open>Decoding one attribute off the wire: the header, then the value.\<close>

definition decode_attr :: "other_decoder \<Rightarrow> bool \<Rightarrow> bytes \<Rightarrow> (message_error, path_attr) res" where
  "decode_attr other use2ByteAS data =
     guard_err (length data < 2) ERR_ATTRIBUTE_LENGTH
    (rbind (PathAttribute_Decode data) (\<lambda>(p, v).
     rbind (decode_value other use2ByteAS p v) (\<lambda>x. Inr \<lparr>attr_hdr = p, attr_value = x\<rparr>)))"

subsection \<open>Constructors\<close>

definition new_attr :: "u8 \<Rightarrow> u8 \<Rightarrow> nat \<Rightarrow> attr_value \<Rightarrow> path_attr" where
  "new_attr flags t len v = \<lparr>attr_hdr = \<lparr>Flags = flags, Type = t, Length = of_nat len\<rparr>, attr_value = v\<rparr>"

definition NewPathAttributeOrigin :: "u8 \<Rightarrow> path_attr" where
  "NewPathAttributeOrigin v =
     new_attr (path_attr_flag BGP_ATTR_TYPE_ORIGIN) BGP_ATTR_TYPE_ORIGIN 1 (PathAttributeOrigin v)"

definition NewPathAttributeAsPath :: "as_param list \<Rightarrow> path_attr" where
  "NewPathAttributeAsPath ps =
     (let l = sum_list (map param_Len ps)
      in new_attr (getPathAttrFlags BGP_ATTR_TYPE_AS_PATH l) BGP_ATTR_TYPE_AS_PATH l (PathAttributeAsPath ps))"

definition NewPathAttributeNextHop :: "addr \<Rightarrow> path_attr option" where
  "NewPathAttributeNextHop a =
     (if \<not> IsValid a then None
      else Some (new_attr (path_attr_flag BGP_ATTR_TYPE_NEXT_HOP) BGP_ATTR_TYPE_NEXT_HOP
             (if Is6 a then 16 else 4) (PathAttributeNextHop a)))"

definition NewPathAttributeMultiExitDisc :: "u32 \<Rightarrow> path_attr" where
  "NewPathAttributeMultiExitDisc v =
     new_attr (path_attr_flag BGP_ATTR_TYPE_MULTI_EXIT_DISC) BGP_ATTR_TYPE_MULTI_EXIT_DISC 4
       (PathAttributeMultiExitDisc v)"

definition NewPathAttributeLocalPref :: "u32 \<Rightarrow> path_attr" where
  "NewPathAttributeLocalPref v =
     new_attr (path_attr_flag BGP_ATTR_TYPE_LOCAL_PREF) BGP_ATTR_TYPE_LOCAL_PREF 4 (PathAttributeLocalPref v)"

definition NewPathAttributeCommunities :: "u32 list \<Rightarrow> path_attr" where
  "NewPathAttributeCommunities vs =
     new_attr (getPathAttrFlags BGP_ATTR_TYPE_COMMUNITIES (length vs * 4)) BGP_ATTR_TYPE_COMMUNITIES
       (length vs * 4) (PathAttributeCommunities vs)"

definition NewPathAttributeOriginatorId :: "addr \<Rightarrow> path_attr option" where
  "NewPathAttributeOriginatorId a =
     (if \<not> Is4 a then None
      else Some (new_attr (path_attr_flag BGP_ATTR_TYPE_ORIGINATOR_ID) BGP_ATTR_TYPE_ORIGINATOR_ID 4
             (PathAttributeOriginatorId a)))"

definition NewPathAttributeClusterList :: "addr list \<Rightarrow> path_attr option" where
  "NewPathAttributeClusterList vs =
     (if \<exists>v \<in> set vs. \<not> Is4 v then None
      else Some (new_attr (getPathAttrFlags BGP_ATTR_TYPE_CLUSTER_LIST (length vs * 4))
             BGP_ATTR_TYPE_CLUSTER_LIST (length vs * 4) (PathAttributeClusterList vs)))"

definition NewPathAttributeExtendedCommunities :: "ext_community list \<Rightarrow> path_attr" where
  "NewPathAttributeExtendedCommunities vs =
     new_attr (getPathAttrFlags BGP_ATTR_TYPE_EXTENDED_COMMUNITIES (length vs * 8))
       BGP_ATTR_TYPE_EXTENDED_COMMUNITIES (length vs * 8) (PathAttributeExtendedCommunities vs)"

definition NewPathAttributeLargeCommunities :: "LargeCommunity list \<Rightarrow> path_attr" where
  "NewPathAttributeLargeCommunities vs =
     new_attr (getPathAttrFlags BGP_ATTR_TYPE_LARGE_COMMUNITY (length vs * 12))
       BGP_ATTR_TYPE_LARGE_COMMUNITY (length vs * 12) (PathAttributeLargeCommunities vs)"

definition NewPathAttributeUnknown :: "u8 \<Rightarrow> u8 \<Rightarrow> bytes \<Rightarrow> path_attr" where
  "NewPathAttributeUnknown flags typ v =
     new_attr (if length v > 255 then flags OR BGP_ATTR_FLAG_EXTENDED_LENGTH else flags) typ (length v)
       (PathAttributeUnknown v)"

subsection \<open>Well-formed attributes\<close>

fun param_wf :: "bool \<Rightarrow> as_param \<Rightarrow> bool" where
  "param_wf use2 (AsPathParam t n as) \<longleftrightarrow>
     use2 \<and> 1 \<le> t \<and> t \<le> 4 \<and> as \<noteq> [] \<and> length as \<le> 255 \<and> n = of_nat (length as)"
| "param_wf use2 (As4PathParam t n as) \<longleftrightarrow>
     \<not> use2 \<and> 1 \<le> t \<and> t \<le> 4 \<and> as \<noteq> [] \<and> length as \<le> 255 \<and> n = of_nat (length as)"

fun value_wf :: "bool \<Rightarrow> u8 \<Rightarrow> attr_value \<Rightarrow> bool" where
  "value_wf use2 t (PathAttributeOrigin v) \<longleftrightarrow> t = BGP_ATTR_TYPE_ORIGIN"
| "value_wf use2 t (PathAttributeAsPath ps) \<longleftrightarrow> t = BGP_ATTR_TYPE_AS_PATH \<and> (\<forall>p \<in> set ps. param_wf use2 p)"
| "value_wf use2 t (PathAttributeNextHop a) \<longleftrightarrow>
     t = BGP_ATTR_TYPE_NEXT_HOP \<and> IsValid a \<and> Zone a = [] \<and> Unmap a = a"
| "value_wf use2 t (PathAttributeMultiExitDisc v) \<longleftrightarrow> t = BGP_ATTR_TYPE_MULTI_EXIT_DISC"
| "value_wf use2 t (PathAttributeLocalPref v) \<longleftrightarrow> t = BGP_ATTR_TYPE_LOCAL_PREF"
| "value_wf use2 t PathAttributeAtomicAggregate \<longleftrightarrow> t = BGP_ATTR_TYPE_ATOMIC_AGGREGATE"
| "value_wf use2 t (PathAttributeAggregator as k a) \<longleftrightarrow>
     t = BGP_ATTR_TYPE_AGGREGATOR \<and> Is4 a \<and> (k = KindUint16 \<longrightarrow> as \<le> 0xFFFF)"
| "value_wf use2 t (PathAttributeCommunities vs) \<longleftrightarrow> t = BGP_ATTR_TYPE_COMMUNITIES"
| "value_wf use2 t (PathAttributeOriginatorId a) \<longleftrightarrow> t = BGP_ATTR_TYPE_ORIGINATOR_ID \<and> Is4 a"
| "value_wf use2 t (PathAttributeClusterList vs) \<longleftrightarrow> t = BGP_ATTR_TYPE_CLUSTER_LIST \<and> (\<forall>v \<in> set vs. Is4 v)"
| "value_wf use2 t (PathAttributeLargeCommunities vs) \<longleftrightarrow> t = BGP_ATTR_TYPE_LARGE_COMMUNITY"
| "value_wf use2 t (PathAttributeUnknown b) \<longleftrightarrow> map_of PathAttrFlags t = None"
| "value_wf use2 t _ \<longleftrightarrow> False"

definition attr_wf :: "bool \<Rightarrow> path_attr \<Rightarrow> bool" where
  "attr_wf use2 a \<longleftrightarrow>
     validatePathAttributeFlags (GetType a) (GetFlags a) \<and> value_wf use2 (GetType a) (attr_value a) \<and>
     (case value_bytes (attr_value a) of
        Inl _ \<Rightarrow> False
      | Inr b \<Rightarrow> length b < 65536 \<and> Length (attr_hdr a) = of_nat (length b) \<and>
                 (255 < length b \<longrightarrow> GetFlags a AND BGP_ATTR_FLAG_EXTENDED_LENGTH \<noteq> 0))"

subsection \<open>Decoding what was encoded\<close>

lemma header_roundtrip:
  assumes "length b < 65536" and "Length p = of_nat (length b)"
    and "255 < length b \<longrightarrow> Flags p AND BGP_ATTR_FLAG_EXTENDED_LENGTH \<noteq> 0"
    and "validatePathAttributeFlags (Type p) (Flags p)"
  shows "PathAttribute_Decode (PathAttribute_Serialize p b) = Inr (p, b)"
proof -
  have l: "unat (of_nat (length b) :: u16) = length b"
    using assms(1) by (simp add: unat_of_nat take_bit_nat_eq_self)
  show ?thesis
  proof (cases "Flags p AND BGP_ATTR_FLAG_EXTENDED_LENGTH = 0")
    case True
    then have s: "length b \<le> 255" using assms(3) by auto
    then have "\<not> (255 < (of_nat (length b) :: u16))" using l by (simp add: word_less_nat_alt)
    moreover have "ucast (ucast (of_nat (length b) :: u16) :: u8) = (of_nat (length b) :: u16)"
      using s by (simp add: word_unat_eq_iff l unsigned_ucast_eq unsigned_take_bit_eq take_bit_nat_eq_self)
    ultimately show ?thesis
      using True assms l s
      by (cases p) (simp add: PathAttribute_Serialize_def PathAttribute_Decode_def Let_def byte_simps res_simps
          guard_err_def unsigned_ucast_eq take_bit_nat_eq_self)
  next
    case False
    then show ?thesis
      using assms l
      by (cases p) (simp add: PathAttribute_Serialize_def PathAttribute_Decode_def Let_def byte_simps res_simps
          guard_err_def to_be_numeral)
  qed
qed

lemma read_u32s_concat: "read_u32s (length vs) (concat (map (to_be 4) vs) @ rest) = Inr vs"
  by (induction vs) (simp_all add: byte_simps)

lemma read_u16s_concat: "read_u16s (length vs) (concat (map (to_be 2) vs) @ rest) = Inr vs"
  by (induction vs) (simp_all add: byte_simps)

lemma length_concat_to_be: "length (concat (map (to_be k) vs)) = k * length vs"
  by (induction vs) simp_all

lemma Is4_cases: "Is4 a \<Longrightarrow> (\<And>w. a = Addr4 w \<Longrightarrow> P) \<Longrightarrow> P"
  by (cases a) simp_all

lemma cluster_bytes_run:
  assumes "\<forall>v \<in> set vs. Is4 v" and "length done = i * 4"
  shows "cluster_bytes i vs (padded done (length done + length vs * 4)) =
    Inr (done @ concat (map AsSlice vs))"
  using assms
proof (induction vs arbitrary: i "done")
  case Nil
  then show ?case by (simp add: padded_full)
next
  case (Cons v vs)
  obtain w where v: "v = Addr4 w" using Cons.prems(1) by (auto elim: Is4_cases)
  have "copy_bytes (i * 4) (length (padded done (length done + length (v # vs) * 4))) (AsSlice v)
      (padded done (length done + length (v # vs) * 4)) =
      (Inr (padded (done @ AsSlice v) (length (done @ AsSlice v) + length vs * 4)) :: (message_error, bytes) res)"
    using Cons.prems(2) by (simp add: v copy_bytes_padded length_padded add.assoc)
  then show ?case using Cons.IH [of "done @ AsSlice v" "Suc i"] Cons.prems by (simp add: v)
qed

lemma length_clusters: "\<forall>v \<in> set vs. Is4 v \<Longrightarrow> length (concat (map AsSlice vs)) = 4 * length vs"
  by (induction vs) (auto elim!: Is4_cases)

lemma read_clusters_concat:
  "\<forall>v \<in> set vs. Is4 v \<Longrightarrow> read_clusters (length vs) (concat (map AsSlice vs) @ rest) = Inr vs"
  by (induction vs) (auto elim!: Is4_cases simp: byte_simps AddrFromSlice_AsSlice [of "Addr4 w" for w, simplified])

lemma read_large_concat:
  "read_large (length vs) (concat (map LargeCommunity_Serialize vs) @ rest) = Inr vs"
proof (induction vs)
  case (Cons v vs)
  then show ?case by (cases v) (simp add: byte_simps)
qed simp

lemma param_Serialize_decode:
  assumes "param_wf use2 q"
  shows "(if \<not> use2 then As4PathParam_Decode (param_Serialize q @ rest)
          else AsPathParam_Decode (param_Serialize q @ rest)) = Inr q"
    and "length (param_Serialize q) = param_Len q"
  using assms
  by (cases q; simp add: As4PathParam_Decode_def AsPathParam_Decode_def byte_simps res_simps guard_err_def
      length_concat_to_be read_u32s_concat read_u16s_concat unat_of_nat take_bit_nat_eq_self)+

lemma params_validate:
  "\<forall>q \<in> set ps. param_wf use2 q \<Longrightarrow> validate_segments (\<not> use2) (concat (map param_Serialize ps)) = Inr ()"
proof (induction ps)
  case Nil
  then show ?case by (simp add: validate_segments.simps)
next
  case (Cons q ps)
  show ?case
  proof (cases q)
    case (AsPathParam t n as)
    then have "unat n = length as" "n \<noteq> 0" "t \<noteq> 0" "\<not> t > 4" using Cons.prems
      by (auto simp: unat_of_nat take_bit_nat_eq_self word_unat_eq_iff word_le_nat_alt word_less_nat_alt)
    then show ?thesis using AsPathParam Cons
      by (subst validate_segments.simps) (auto simp: length_concat_to_be Let_def)
  next
    case (As4PathParam t n as)
    then have "unat n = length as" "n \<noteq> 0" "t \<noteq> 0" "\<not> t > 4" using Cons.prems
      by (auto simp: unat_of_nat take_bit_nat_eq_self word_unat_eq_iff word_le_nat_alt word_less_nat_alt)
    then show ?thesis using As4PathParam Cons
      by (subst validate_segments.simps) (auto simp: length_concat_to_be Let_def)
  qed
qed

lemma params_decode:
  "\<forall>q \<in> set ps. param_wf use2 q \<Longrightarrow> decode_params (\<not> use2) (concat (map param_Serialize ps)) = Inr ps"
proof (induction ps)
  case Nil
  then show ?case by (simp add: decode_params.simps)
next
  case (Cons q ps)
  have ne: "param_Serialize q \<noteq> []" by (cases q) simp_all
  show ?case
    using Cons ne param_Serialize_decode(1) [of use2 q "concat (map param_Serialize ps)"] param_Serialize_decode(2) [of use2 q]
    by (cases use2; subst decode_params.simps) simp_all
qed

lemma params_even: "even (length (param_Serialize q))"
  by (cases q) (simp_all add: length_concat_to_be)

lemma params_even_list: "even (length (concat (map param_Serialize ps)))"
  by (induction ps) (simp_all add: params_even)

lemma value_roundtrip:
  assumes "value_wf use2 t v" and "value_bytes v = Inr b" and "Type p = t" and "unat (Length p) = length b"
  shows "decode_value other use2 p b = Inr v"
  using assms
proof (cases v)
  case (PathAttributeAsPath ps)
  then show ?thesis
    using assms params_validate [of ps use2] params_decode [of ps use2] params_even_list [of ps]
    by (auto simp: attr_decode_defs validateAsPathValueBytes_def guard_err_def even_iff_mod_2_eq_zero
        decode_params.simps [of _ "[]"])
next
  case (PathAttributeAggregator as k a)
  then obtain w where a: "a = Addr4 w" using assms(1) by (auto elim: Is4_cases)
  show ?thesis
  proof (cases k)
    case KindUint16
    then have "ucast (ucast as :: u16) = as"
      using assms(1) PathAttributeAggregator
      by (simp add: word_unat_eq_iff unsigned_ucast_eq unsigned_take_bit_eq take_bit_nat_eq_self word_le_nat_alt)
    then show ?thesis using assms PathAttributeAggregator KindUint16 a
      by (auto simp: attr_decode_defs byte_simps padded_full guard_err_def
          AddrFromSlice_AsSlice [of "Addr4 w", simplified])
  next
    case KindUint32
    then show ?thesis using assms PathAttributeAggregator a
      by (auto simp: attr_decode_defs byte_simps padded_full guard_err_def
          AddrFromSlice_AsSlice [of "Addr4 w", simplified])
  qed
next
  case (PathAttributeClusterList vs)
  then have b: "b = concat (map AsSlice vs)"
    using assms cluster_bytes_run [of vs "[]" 0] by (simp add: make_bytes_padded)
  show ?thesis
    using assms length_clusters [of vs] PathAttributeClusterList read_clusters_concat [of vs "[]"]
    by (simp add: attr_decode_defs b guard_err_def)
next
  case (PathAttributeLargeCommunities vs)
  have "length (concat (map LargeCommunity_Serialize vs)) = 12 * length vs"
  proof (induction vs)
    case (Cons v vs)
    then show ?case by (cases v) simp
  qed simp
  then show ?thesis
    using assms PathAttributeLargeCommunities read_large_concat [of vs "[]"]
    by (auto simp: attr_decode_defs guard_err_def)
next
  case (PathAttributeCommunities vs)
  then show ?thesis
    using assms read_u32s_concat [of vs "[]"] by (auto simp: attr_decode_defs guard_err_def length_concat_to_be)
next
  case (PathAttributeOriginatorId a)
  then obtain w where "a = Addr4 w" using assms(1) by (auto elim: Is4_cases)
  then show ?thesis using assms PathAttributeOriginatorId
    by (auto simp: attr_decode_defs byte_simps padded_full guard_err_def
        AddrFromSlice_AsSlice [of "Addr4 w", simplified])
next
  case (PathAttributeNextHop a)
  then show ?thesis using assms AddrFromSlice_AsSlice [of a]
    by (cases a) (auto simp: attr_decode_defs guard_err_def)
next
  case (PathAttributeUnknown b')
  then show ?thesis using assms by (auto simp: attr_decode_defs PathAttrFlags_def Let_def split: if_splits)
qed (auto simp: attr_decode_defs guard_err_def byte_simps)

lemma attr_roundtrip_aux:
  assumes "attr_wf use2 a"
  shows "\<exists>bs. attr_Serialize a = Inr bs \<and> decode_attr other use2 bs = Inr a"
proof -
  obtain b where b: "value_bytes (attr_value a) = Inr b" "length b < 65536"
    "Length (attr_hdr a) = of_nat (length b)"
    "255 < length b \<longrightarrow> GetFlags a AND BGP_ATTR_FLAG_EXTENDED_LENGTH \<noteq> 0"
    using assms by (auto simp: attr_wf_def split: sum.splits)
  have l: "unat (Length (attr_hdr a)) = length b"
    using b(2,3) by (simp add: unat_of_nat take_bit_nat_eq_self)
  have "PathAttribute_Decode (PathAttribute_Serialize (attr_hdr a) b) = Inr (attr_hdr a, b)"
    using assms b by (intro header_roundtrip) (auto simp: attr_wf_def GetFlags_def GetType_def)
  moreover have "decode_value other use2 (attr_hdr a) b = Inr (attr_value a)"
    using assms b l by (intro value_roundtrip) (auto simp: attr_wf_def GetType_def)
  moreover have "2 \<le> length (PathAttribute_Serialize (attr_hdr a) b)"
    by (simp add: PathAttribute_Serialize_def Let_def)
  ultimately show ?thesis
    using b(1) by (simp add: attr_Serialize_def decode_attr_def guard_err_def)
qed

interpretation attr_codec: message_codec "attr_wf use2" attr_Serialize "decode_attr other use2" for use2 other
  by unfold_locales (rule attr_roundtrip_aux)

subsection \<open>No input makes the decoder panic\<close>

lemma read_u16s_total: "n * 2 \<le> length d \<Longrightarrow> \<exists>xs. read_u16s n d = Inr xs \<and> length xs = n"
proof (induction n arbitrary: d)
  case (Suc n)
  then have "n * 2 \<le> length (drop 2 d)" by simp
  then obtain xs where "read_u16s n (drop 2 d) = Inr xs" "length xs = n" using Suc.IH by blast
  then show ?case using Suc.prems by (simp add: byte_simps)
qed simp

lemma read_u32s_total: "n * 4 \<le> length d \<Longrightarrow> \<exists>xs. read_u32s n d = Inr xs \<and> length xs = n"
proof (induction n arbitrary: d)
  case (Suc n)
  then have "n * 4 \<le> length (drop 4 d)" by simp
  then obtain xs where "read_u32s n (drop 4 d) = Inr xs" "length xs = n" using Suc.IH by blast
  then show ?case using Suc.prems by (simp add: byte_simps)
qed simp

lemma read_clusters_total: "n * 4 \<le> length d \<Longrightarrow> \<exists>xs. read_clusters n d = Inr xs"
proof (induction n arbitrary: d)
  case (Suc n)
  then have "n * 4 \<le> length (drop 4 d)" by simp
  then obtain xs where "read_clusters n (drop 4 d) = Inr xs" using Suc.IH by blast
  then show ?case using Suc.prems by (simp add: byte_simps)
qed simp

lemma read_large_total: "n * 12 \<le> length d \<Longrightarrow> \<exists>xs. read_large n d = Inr xs"
proof (induction n arbitrary: d)
  case (Suc n)
  then have "n * 12 \<le> length (drop 12 d)" by simp
  then obtain xs where "read_large n (drop 12 d) = Inr xs" using Suc.IH by blast
  then show ?case using Suc.prems by (simp add: byte_simps)
qed simp

lemma AsPathParam_Decode_total:
  "no_panic (AsPathParam_Decode d) \<and> (\<forall>q. AsPathParam_Decode d = Inr q \<longrightarrow> param_Len q \<le> length d)"
proof (cases "length d < 2 \<or> length (drop 2 d) < unat (d ! 1) * 2")
  case True
  then show ?thesis by (auto simp: AsPathParam_Decode_def byte_simps guard_err_def
      simp del: length_greater_0_conv)
next
  case False
  then obtain xs where "read_u16s (unat (d ! 1)) (drop 2 d) = Inr xs" "length xs = unat (d ! 1)"
    using read_u16s_total [of "unat (d ! 1)" "drop 2 d"] by auto
  then show ?thesis using False by (auto simp: AsPathParam_Decode_def byte_simps guard_err_def
      simp del: length_greater_0_conv)
qed

lemma As4PathParam_Decode_total:
  "no_panic (As4PathParam_Decode d) \<and> (\<forall>q. As4PathParam_Decode d = Inr q \<longrightarrow> param_Len q \<le> length d)"
proof (cases "length d < 2 \<or> length (drop 2 d) < unat (d ! 1) * 4")
  case True
  then show ?thesis by (auto simp: As4PathParam_Decode_def byte_simps guard_err_def
      simp del: length_greater_0_conv)
next
  case False
  then obtain xs where "read_u32s (unat (d ! 1)) (drop 2 d) = Inr xs" "length xs = unat (d ! 1)"
    using read_u32s_total [of "unat (d ! 1)" "drop 2 d"] by auto
  then show ?thesis using False by (auto simp: As4PathParam_Decode_def byte_simps guard_err_def
      simp del: length_greater_0_conv)
qed

lemma decode_params_no_panic: "no_panic (decode_params isAs4 d)"
proof (induction isAs4 d rule: decode_params.induct)
  case (1 isAs4 d)
  define r where "r = (if isAs4 then As4PathParam_Decode d else AsPathParam_Decode d)"
  show ?case
  proof (cases "d = []")
    case True
    then show ?thesis by (simp add: decode_params.simps)
  next
    case False
    then have r: "no_panic r" "\<And>q. r = Inr q \<Longrightarrow> param_Len q \<le> length d"
      using AsPathParam_Decode_total [of d] As4PathParam_Decode_total [of d] by (simp_all add: r_def split: if_splits)
    show ?thesis
    proof (cases r)
      case (Inl e)
      then show ?thesis using False r(1) by (subst decode_params.simps) (auto simp: no_panic_def simp flip: r_def)
    next
      case (Inr q)
      then have "no_panic (decode_params isAs4 (drop (param_Len q) d))"
        using 1 [OF False] r(2) by (simp add: r_def not_less)
      then show ?thesis using False r(2) [OF Inr] Inr
        by (subst decode_params.simps) (auto simp: no_panic_def simp flip: r_def split: sum.split)
    qed
  qed
qed

lemma validate_segments_no_panic: "no_panic (validate_segments use4 d)"
proof (induction use4 d rule: validate_segments.induct)
  case (1 use4 d)
  then show ?case by (subst validate_segments.simps) (auto simp: Let_def)
qed

lemma PathAttribute_Decode_value:
  assumes "PathAttribute_Decode data = Inr (p, v)"
  shows "length v = unat (Length p)" "2 \<le> length data" "Type p = data ! 1" "PathAttribute_Len p \<le> length data"
  using assms by (auto simp: PathAttribute_Decode_def PathAttribute_Len_def res_simps slice_def get_u8_def guard_err_def split: if_splits)

lemma PathAttribute_Decode_no_panic: "no_panic (PathAttribute_Decode data)"
proof (cases "length data < 2")
  case True
  then show ?thesis by (simp add: PathAttribute_Decode_def)
next
  case False
  then show ?thesis
    by (auto simp: PathAttribute_Decode_def byte_simps guard_err_def not_less
        simp del: length_greater_0_conv)
qed

lemma as_path_no_panic:
  "no_panic (rbind (validateAsPathValueBytes use2 v) (\<lambda>isAs4. rbind (decode_params isAs4 v) (\<lambda>ps. Inr (f ps))))"
  using validate_segments_no_panic [of "\<not> use2" v]
  by (intro no_panic_rbind) (simp_all add: validateAsPathValueBytes_def decode_params_no_panic)

lemma decode_value_no_panic:
  assumes len: "length v = unat (Length p)" and modelled: "modelled_type (Type p)"
  shows "no_panic (decode_value other use2 p v)"
proof -
  have u8: "no_panic (guard_err (unat (Length p) \<noteq> 1) e (rbind (get_u8 v 0) (\<lambda>x. Inr (f x))))" for e f
    using len by (simp add: get_u8_def)
  have u32: "no_panic (guard_err (unat (Length p) \<noteq> 4) e (rbind (get_u32 v 0) (\<lambda>x. Inr (f x))))" for e f
    using len by (simp add: get_u32_def slice_def)
  have agg: "no_panic (if unat (Length p) = 6 then
        rbind (get_u16 v 0) (\<lambda>as. rbind (slice v 2 (length v)) (\<lambda>a. Inr (f as a)))
      else if unat (Length p) = 8 then
        rbind (get_u32 v 0) (\<lambda>as. rbind (slice v 4 (length v)) (\<lambda>a. Inr (g as a)))
      else Inl (Err e))" for e f g
    using len by (simp add: get_u16_def get_u32_def slice_def)
  have lists: "no_panic (read_u32s (length v div 4) v)" "no_panic (read_clusters (length v div 4) v)"
    "no_panic (read_large (length v div 12) v)"
    using read_u32s_total [of "length v div 4" v] read_clusters_total [of "length v div 4" v]
      read_large_total [of "length v div 12" v] by auto
  show ?thesis
    unfolding attr_decode_defs
    by (intro if_split [of no_panic, THEN iffD2] conjI impI u8 u32 agg as_path_no_panic)
      (use modelled in \<open>simp_all add: lists modelled_type_def\<close>)
qed

text \<open>C38: A well-formed path attribute serialises without error and decodes to itself, in
  both AS number encodings, whatever the decoders of the other attribute types do.\<close>

theorem attr_roundtrip:
  assumes "attr_wf use2 a"
  shows "\<exists>bs. attr_Serialize a = Inr bs \<and> decode_attr other use2 bs = Inr a"
  by (rule attr_codec.enc_dec [OF assms])

theorem attr_roundtrip_witness:
  "\<exists>bs. attr_Serialize (NewPathAttributeAsPath [NewAs4PathParam 2 [65001, 4200000000], NewAs4PathParam 1 [7]]) = Inr bs \<and>
     decode_attr (\<lambda>p v. Inr (PathAttributeOpaque v)) False bs =
     Inr (NewPathAttributeAsPath [NewAs4PathParam 2 [65001, 4200000000], NewAs4PathParam 1 [7]])"
  by (rule attr_roundtrip)
    (simp add: attr_wf_def NewPathAttributeAsPath_def NewAs4PathParam_def new_attr_def GetType_def GetFlags_def
      getPathAttrFlags_def path_attr_flag_def PathAttrFlags_def validatePathAttributeFlags_def Let_def)

text \<open>C39: Decoding an attribute of a type that is ORIGIN, AS_PATH, NEXT_HOP, MED, LOCAL_PREF,
  ATOMIC_AGGREGATE, AGGREGATOR, COMMUNITIES, ORIGINATOR_ID, CLUSTER_LIST, LARGE_COMMUNITY or
  unknown never panics, whatever bytes it is given and in both AS number encodings. If it succeeds,
  the length the attribute reports, by which the caller advances, does not exceed the input, which
  holds for every type.\<close>

theorem decode_attr_no_panic:
  assumes "length data < 2 \<or> modelled_type (data ! 1)"
  shows "no_panic (decode_attr other use2 data) \<and>
    (\<forall>a. decode_attr other use2 data = Inr a \<longrightarrow> PathAttribute_Len (attr_hdr a) \<le> length data)"
proof
  have "modelled_type (Type p)" if "PathAttribute_Decode data = Inr (p, v)" for p v
    using assms PathAttribute_Decode_value(2,3) [OF that] by simp
  then show "no_panic (decode_attr other use2 data)"
    unfolding decode_attr_def
    by (auto simp: PathAttribute_Decode_no_panic
        intro!: no_panic_rbind decode_value_no_panic dest: PathAttribute_Decode_value(1))
  show "\<forall>a. decode_attr other use2 data = Inr a \<longrightarrow> PathAttribute_Len (attr_hdr a) \<le> length data"
    using PathAttribute_Decode_value(4) by (auto simp: decode_attr_def res_simps guard_err_def split: if_splits)
qed

theorem decode_attr_no_panic_witness:
  "no_panic (decode_attr (\<lambda>_ _. Inl Panic) True [0x40, 2, 6, 2, 255, 0, 1, 0, 2])"
proof -
  have "modelled_type ([0x40, 2, 6, 2, 255, 0, 1, 0, 2] ! 1)" by code_simp
  then show ?thesis using decode_attr_no_panic [of "[0x40, 2, 6, 2, 255, 0, 1, 0, 2]"] by blast
qed

end
