(* ===== verification/Path.thy ===== *)
theory Path
  imports Bgp_Attr
begin

section \<open>Paths: \<open>internal/pkg/table/path.go\<close>\<close>

text \<open>
  A path of the routing table and the operations that read and rewrite its attributes.

  \<^item> A \<open>Path\<close> is a layer over its parent: \<open>Clone\<close> makes a new layer, and the layers keep
    only the attributes that were set (\<open>pathAttrs\<close>) or deleted (\<open>dels\<close>) in them. The layer
    without a parent is the \<open>Root\<close>, the only one that has an \<open>originInfo\<close>.
  \<^item> A layer is a value: the operations return the updated path. A parent is not changed
    once it has been cloned.
  \<^item> The NLRI is a type parameter; no operation here looks into it. A path always has one.
  \<^item> \<open>PeerInfo\<close> has the fields that the modelled operations read; \<open>MultihopTtl\<close>, \<open>PeerGroup\<close> and
    \<open>addressNh\<close> are left out.
  \<^item> A type assertion on an attribute found by its type code cannot fail, because the
    decoder picks the Go type by that code.
  \<^item> A \<open>nil\<close> attribute stored in a path is a panic, which is what its first use is.
\<close>

subsection \<open>Bitmaps\<close>

type_synonym bitmap = "u64 list"

definition Flag :: "nat \<Rightarrow> bitmap \<Rightarrow> ('e, bitmap) res" where
  "Flag i b = (if i div 64 < length b
     then Inr (b[i div 64 := b ! (i div 64) OR push_bit (i mod 64) 1]) else Inl Panic)"

definition Unflag :: "nat \<Rightarrow> bitmap \<Rightarrow> ('e, bitmap) res" where
  "Unflag i b = (if i div 64 < length b
     then Inr (b[i div 64 := b ! (i div 64) AND NOT (push_bit (i mod 64) 1)]) else Inl Panic)"

definition GetFlag :: "nat \<Rightarrow> bitmap \<Rightarrow> ('e, bool) res" where
  "GetFlag i b = (if i div 64 < length b
     then Inr (b ! (i div 64) AND push_bit (i mod 64) 1 > 0) else Inl Panic)"

text \<open>The inner loop of \<open>FindandSetZeroBit\<close>: the first of the bits \<open>js\<close> that is zero.\<close>

fun zero_bit :: "u64 \<Rightarrow> nat list \<Rightarrow> nat option" where
  "zero_bit w [] = None"
| "zero_bit w (j # js) = (if NOT w AND push_bit j 1 > 0 then Some j else zero_bit w js)"

fun find_zero :: "nat \<Rightarrow> bitmap \<Rightarrow> nat option" where
  "find_zero i [] = None"
| "find_zero i (w # ws) =
     (if w = 0xFFFFFFFFFFFFFFFF then find_zero (i + 1) ws
      else case zero_bit w [0..<64] of
             Some j \<Rightarrow> Some (i * 64 + j)
           | None \<Rightarrow> find_zero (i + 1) ws)"

definition FindandSetZeroBit :: "bitmap \<Rightarrow> (unit, nat \<times> bitmap) res" where
  "FindandSetZeroBit b =
     (case find_zero 0 b of
        None \<Rightarrow> Inl (Err ())
      | Some r \<Rightarrow> rbind (Flag r b) (\<lambda>b'. Inr (r, b')))"

definition Expand :: "bitmap \<Rightarrow> bitmap" where
  "Expand b = b @ [0]"

definition NewBitmap :: "nat \<Rightarrow> bitmap" where
  "NewBitmap sz = (if sz \<noteq> 0 then replicate ((sz + 64 - 1) div 64) 0 else [])"

subsection \<open>Peers, next hops, paths\<close>

datatype PeerType = PEER_TYPE_UNSPECIFIED | PEER_TYPE_INTERNAL | PEER_TYPE_EXTERNAL

datatype RemovePrivateAsOption =
  REMOVE_PRIVATE_AS_OPTION_NONE | REMOVE_PRIVATE_AS_OPTION_ALL | REMOVE_PRIVATE_AS_OPTION_REPLACE

record Nexthops =
  global_nh :: addr
  linkLocal :: addr

record PeerInfo =
  PeerType :: PeerType
  AS :: u32
  ID :: addr
  Address :: addr
  LocalAS :: u32
  LocalID :: addr
  LocalAddress :: addr
  RouteReflectorClient :: bool
  RouteReflectorClusterID :: addr
  RouteServerClient :: bool
  Confederation :: bool
  RemovePrivateAs :: RemovePrivateAsOption
  localNh :: "Nexthops option"

record Global =
  RouterId :: addr
  MemberAsList :: "u32 list"

record 'n originInfo =
  nlri :: 'n
  source :: PeerInfo
  timestamp :: int
  stale :: bool
  noImplicitWithdraw :: bool
  isFromExternal :: bool
  eor :: bool

record path_fields =
  pathAttrs :: "path_attr list"
  dels :: "u8 list"
  attrsHash :: u64
  nh :: "Nexthops option"
  localID :: u32
  remoteID :: u32
  family :: u32
  rejected :: bool
  dropped :: bool
  IsNexthopInvalid :: bool
  IsWithdraw :: bool

datatype 'n path = Root "'n originInfo" path_fields | Child "'n path" path_fields

fun layer :: "'n path \<Rightarrow> path_fields" where
  "layer (Root _ f) = f"
| "layer (Child _ f) = f"

fun upd_fields :: "(path_fields \<Rightarrow> path_fields) \<Rightarrow> 'n path \<Rightarrow> 'n path" where
  "upd_fields g (Root i f) = Root i (g f)"
| "upd_fields g (Child p f) = Child p (g f)"

abbreviation (input) "RF_IPv4_UC \<equiv> (0x10001 :: u32)"
abbreviation (input) "RF_RTC_UC \<equiv> (0x10084 :: u32)"

definition PeerInfo_Equal :: "PeerInfo \<Rightarrow> PeerInfo \<Rightarrow> bool" where
  "PeerInfo_Equal l r \<longleftrightarrow> AS l = AS r \<and> ID l = ID r \<and> LocalID l = LocalID r \<and> Address l = Address r"

definition localAddressNexthops :: "PeerInfo \<Rightarrow> Nexthops" where
  "localAddressNexthops info =
     (case localNh info of
        Some n \<Rightarrow> if global_nh n = LocalAddress info then n
                  else \<lparr>global_nh = LocalAddress info, linkLocal = AddrNone\<rparr>
      | None \<Rightarrow> \<lparr>global_nh = LocalAddress info, linkLocal = AddrNone\<rparr>)"

definition IsConfederationMember :: "Global \<Rightarrow> u32 \<Rightarrow> bool" where
  "IsConfederationMember g peerAS \<longleftrightarrow> peerAS \<in> set (MemberAsList g)"

fun nexthop_scan :: "path_attr list \<Rightarrow> Nexthops option \<Rightarrow> Nexthops option \<Rightarrow> path_attr list \<Rightarrow>
    path_attr list \<times> Nexthops option \<times> Nexthops option" where
  "nexthop_scan [] nx mp rest = (rest, nx, mp)"
| "nexthop_scan (a # as) nx mp rest =
     (case attr_value a of
        PathAttributeNextHop v \<Rightarrow> nexthop_scan as (Some \<lparr>global_nh = v, linkLocal = AddrNone\<rparr>) mp rest
      | PathAttributeMpReachNLRI g l _ \<Rightarrow> nexthop_scan as nx (Some \<lparr>global_nh = g, linkLocal = l\<rparr>) rest
      | _ \<Rightarrow> nexthop_scan as nx mp (rest @ [a]))"

definition extractNexthops :: "path_attr list \<Rightarrow> path_attr list \<times> Nexthops option" where
  "extractNexthops attrs =
     (if \<not> (\<exists>a \<in> set attrs. GetType a = BGP_ATTR_TYPE_NEXT_HOP \<or> GetType a = BGP_ATTR_TYPE_MP_REACH_NLRI)
      then (attrs, None)
      else let (rest, nx, mp) = nexthop_scan attrs None None []
           in if mp \<noteq> None then (rest, mp) else (rest, nx))"

definition localSource :: PeerInfo where
  "localSource = \<lparr>PeerType = PEER_TYPE_UNSPECIFIED, AS = 0, ID = AddrNone, Address = AddrNone, LocalAS = 0,
     LocalID = AddrNone, LocalAddress = AddrNone, RouteReflectorClient = False,
     RouteReflectorClusterID = AddrNone, RouteServerClient = False, Confederation = False,
     RemovePrivateAs = REMOVE_PRIVATE_AS_OPTION_NONE, localNh = None\<rparr>"

definition NewPath :: "u32 \<Rightarrow> PeerInfo option \<Rightarrow> 'n \<Rightarrow> u32 \<Rightarrow> bool \<Rightarrow> path_attr list option \<Rightarrow> int \<Rightarrow> bool \<Rightarrow>
    'n path option" where
  "NewPath fam src n pid isWithdraw pattrs ts noImplicit =
     (if \<not> isWithdraw \<and> pattrs = None then None
      else let (attrs, nhs) = extractNexthops (case pattrs of None \<Rightarrow> [] | Some as \<Rightarrow> as)
           in Some (Root \<lparr>nlri = n, source = (case src of None \<Rightarrow> localSource | Some s \<Rightarrow> s), timestamp = ts,
                     stale = False, noImplicitWithdraw = noImplicit, isFromExternal = False, eor = False\<rparr>
                   \<lparr>pathAttrs = attrs, dels = [], attrsHash = 0, nh = nhs, localID = 0, remoteID = pid,
                     family = fam, rejected = False, dropped = False, IsNexthopInvalid = False,
                     IsWithdraw = isWithdraw\<rparr>))"

definition Clone :: "bool \<Rightarrow> 'n path \<Rightarrow> 'n path" where
  "Clone isWithdraw p =
     Child p \<lparr>pathAttrs = [], dels = [], attrsHash = attrsHash (layer p), nh = nh (layer p),
       localID = localID (layer p), remoteID = remoteID (layer p), family = family (layer p),
       rejected = False, dropped = False, IsNexthopInvalid = IsNexthopInvalid (layer p),
       IsWithdraw = isWithdraw\<rparr>"

fun OriginInfo :: "'n path \<Rightarrow> 'n originInfo" where
  "OriginInfo (Root i _) = i"
| "OriginInfo (Child p _) = OriginInfo p"

fun upd_info :: "('n originInfo \<Rightarrow> 'n originInfo) \<Rightarrow> 'n path \<Rightarrow> 'n path" where
  "upd_info g (Root i f) = Root (g i) f"
| "upd_info g (Child p f) = Child (upd_info g p) f"

definition MarkStale :: "bool \<Rightarrow> 'n path \<Rightarrow> 'n path" where
  "MarkStale s = upd_info (stale_update (\<lambda>_. s))"

definition SetIsFromExternal :: "bool \<Rightarrow> 'n path \<Rightarrow> 'n path" where
  "SetIsFromExternal y = upd_info (isFromExternal_update (\<lambda>_. y))"

fun IsEOR :: "'n path \<Rightarrow> bool" where
  "IsEOR (Root i _) = eor i"
| "IsEOR (Child _ _) = False"

abbreviation GetSource :: "'n path \<Rightarrow> PeerInfo" where
  "GetSource p \<equiv> source (OriginInfo p)"

definition IsLocal :: "'n path \<Rightarrow> bool" where
  "IsLocal p \<longleftrightarrow> \<not> IsValid (Address (GetSource p))"

definition IsIBGP :: "'n path \<Rightarrow> bool" where
  "IsIBGP p \<longleftrightarrow> AS (GetSource p) = LocalAS (GetSource p) \<and> AS (GetSource p) \<noteq> 0"

subsection \<open>Attributes of a layered path\<close>

fun getPathAttr :: "u8 \<Rightarrow> 'n path \<Rightarrow> path_attr option" where
  "getPathAttr t (Root _ f) =
     (if t \<in> set (dels f) then None else find (\<lambda>a. GetType a = t) (pathAttrs f))"
| "getPathAttr t (Child p f) =
     (if t \<in> set (dels f) then None
      else case find (\<lambda>a. GetType a = t) (pathAttrs f) of
             Some a \<Rightarrow> Some a
           | None \<Rightarrow> getPathAttr t p)"

fun replace_attr :: "path_attr \<Rightarrow> path_attr list \<Rightarrow> path_attr list" where
  "replace_attr a [] = [a]"
| "replace_attr a (b # bs) = (if GetType a = GetType b then a # bs else b # replace_attr a bs)"

definition setPathAttr :: "path_attr \<Rightarrow> 'n path \<Rightarrow> 'n path" where
  "setPathAttr a = upd_fields (\<lambda>f. f\<lparr>attrsHash := 0, pathAttrs := replace_attr a (pathAttrs f)\<rparr>)"

definition delPathAttr :: "u8 \<Rightarrow> 'n path \<Rightarrow> 'n path" where
  "delPathAttr t = upd_fields (\<lambda>f. f\<lparr>attrsHash := 0, dels := dels f @ [t]\<rparr>)"

text \<open>\<open>GetPathAttrs\<close> walks the layers once, from the newest, with the types deleted so far
  and the attributes set so far; the Go map of the latter is the list of its values.\<close>

fun add_modified :: "u8 list \<Rightarrow> path_attr list \<Rightarrow> path_attr list \<Rightarrow> path_attr list" where
  "add_modified deleted modified [] = modified"
| "add_modified deleted modified (a # as) =
     (if GetType a \<notin> set deleted \<and> find (\<lambda>m. GetType m = GetType a) modified = None
      then add_modified deleted (modified @ [a]) as
      else add_modified deleted modified as)"

fun root_list :: "u8 list \<Rightarrow> path_attr list \<Rightarrow> path_attr list \<Rightarrow> path_attr list \<times> path_attr list" where
  "root_list deleted modified [] = ([], modified)"
| "root_list deleted modified (a # as) =
     (case find (\<lambda>m. GetType m = GetType a) modified of
        Some m \<Rightarrow>
          (let (l, ms) = root_list deleted (filter (\<lambda>m. GetType m \<noteq> GetType a) modified) as in (m # l, ms))
      | None \<Rightarrow>
          (let (l, ms) = root_list deleted modified as
           in (if GetType a \<notin> set deleted then a # l else l, ms)))"

fun path_attrs_walk :: "u8 list \<Rightarrow> path_attr list \<Rightarrow> 'n path \<Rightarrow> path_attr list" where
  "path_attrs_walk deleted modified (Root _ f) =
     (let (list, ms) = root_list (deleted @ dels f) modified (pathAttrs f)
      in if ms = [] then list else sort_key GetType (list @ ms))"
| "path_attrs_walk deleted modified (Child p f) =
     path_attrs_walk (deleted @ dels f) (add_modified (deleted @ dels f) modified (pathAttrs f)) p"

definition GetPathAttrs :: "'n path \<Rightarrow> path_attr list" where
  "GetPathAttrs p = path_attrs_walk [] [] p"

subsection \<open>AS_PATH\<close>

definition cloneAsPath :: "as_param list \<Rightarrow> as_param list" where
  "cloneAsPath ps = map (\<lambda>q. NewAs4PathParam (param_GetType q) (param_GetAS q)) ps"

definition GetAsPath :: "'n path \<Rightarrow> as_param list option" where
  "GetAsPath p =
     (case getPathAttr BGP_ATTR_TYPE_AS_PATH p of
        Some a \<Rightarrow> (case attr_value a of PathAttributeAsPath v \<Rightarrow> Some v | _ \<Rightarrow> None)
      | None \<Rightarrow> None)"

definition GetAsPathLen :: "'n path \<Rightarrow> nat" where
  "GetAsPathLen p = (case GetAsPath p of None \<Rightarrow> 0 | Some v \<Rightarrow> sum_list (map param_ASLen v))"

definition getAsListOfSpecificType :: "bool \<Rightarrow> bool \<Rightarrow> 'n path \<Rightarrow> u32 list" where
  "getAsListOfSpecificType getAsSeq getAsSet p =
     (case GetAsPath p of
        None \<Rightarrow> []
      | Some v \<Rightarrow> concat (map (\<lambda>q.
          if getAsSeq \<and> param_GetType q = BGP_ASPATH_ATTR_TYPE_SEQ then param_GetAS q
          else if getAsSet \<and> param_GetType q = BGP_ASPATH_ATTR_TYPE_SET then param_GetAS q
          else [0]) v))"

definition GetAsList :: "'n path \<Rightarrow> u32 list" where
  "GetAsList p = getAsListOfSpecificType True True p"

definition GetAsSeqList :: "'n path \<Rightarrow> u32 list" where
  "GetAsSeqList p = getAsListOfSpecificType True False p"

definition GetSourceAs :: "'n path \<Rightarrow> u32" where
  "GetSourceAs p =
     (case GetAsPath p of
        None \<Rightarrow> 0
      | Some v \<Rightarrow> if v = [] then 0
                  else let asList = param_GetAS (last v) in if asList = [] then 0 else last asList)"

text \<open>
  \<open>PrependAsn\<close> builds the new first segment with \<open>append(asns[:repeat], asList...)\<close>. The
  slice \<open>asns\<close> was made with exactly \<open>repeat\<close> elements, so when the result fits into that
  capacity Go appends in place, over the elements of \<open>asns\<close> that are still to be used.
  \<open>backing\<close> is what the array of \<open>asns\<close> holds after the append. The attribute's header
  is built before its value is changed, so its length is that of the AS_PATH it started from.
\<close>

definition prepend_segments :: "u8 \<Rightarrow> u32 list \<Rightarrow> as_param list \<Rightarrow> as_param list" where
  "prepend_segments segType asns ps = (if asns \<noteq> [] then NewAs4PathParam segType asns # ps else ps)"

definition prepend_as :: "u32 \<Rightarrow> u8 \<Rightarrow> u8 \<Rightarrow> as_param list \<Rightarrow> (unit, as_param list) res" where
  "prepend_as asn repeat segType ps =
     (let asns = replicate (unat repeat) asn in
      case ps of
        [] \<Rightarrow> Inr (prepend_segments segType asns [])
      | q # rest \<Rightarrow>
          if param_GetType q = segType then
            let asList = param_GetAS q;
                rep = (if unat repeat + length asList > 255
                       then unat (word_of_int (255 - int (length asList)) :: u8) else unat repeat)
            in if rep > length asns then Inl Panic
               else let backing = (if rep + length asList \<le> length asns
                                   then take rep asns @ asList @ drop (rep + length asList) asns
                                   else asns)
                    in Inr (prepend_segments segType (drop rep backing)
                             (NewAs4PathParam segType (take rep asns @ asList) # rest))
          else Inr (prepend_segments segType asns ps))"

definition PrependAsn :: "u32 \<Rightarrow> u8 \<Rightarrow> bool \<Rightarrow> 'n path \<Rightarrow> (unit, 'n path) res" where
  "PrependAsn asn repeat confed p =
     (let segType = (if confed then BGP_ASPATH_ATTR_TYPE_CONFED_SEQ else BGP_ASPATH_ATTR_TYPE_SEQ);
          ps = (case GetAsPath p of None \<Rightarrow> [] | Some v \<Rightarrow> cloneAsPath v)
      in rbind (prepend_as asn repeat segType ps) (\<lambda>v.
           Inr (setPathAttr ((NewPathAttributeAsPath ps)\<lparr>attr_value := PathAttributeAsPath v\<rparr>) p)))"

definition isPrivateAS :: "u32 \<Rightarrow> bool" where
  "isPrivateAS as \<longleftrightarrow> 64512 \<le> as \<and> as \<le> 65534 \<or> 4200000000 \<le> as \<and> as \<le> 4294967294"

definition remove_private :: "u32 \<Rightarrow> RemovePrivateAsOption \<Rightarrow> as_param list \<Rightarrow> as_param list" where
  "remove_private localAS opt v =
     concat (map (\<lambda>q.
       let as' = concat (map (\<lambda>as. if isPrivateAS as
                   then (if opt = REMOVE_PRIVATE_AS_OPTION_REPLACE then [localAS] else []) else [as])
                 (param_GetAS q))
       in if as' \<noteq> [] then [NewAs4PathParam (param_GetType q) as'] else []) v)"

definition RemovePrivateAS :: "u32 \<Rightarrow> RemovePrivateAsOption \<Rightarrow> 'n path \<Rightarrow> 'n path" where
  "RemovePrivateAS localAS opt p =
     (case GetAsPath p of
        None \<Rightarrow> p
      | Some v \<Rightarrow>
          if opt = REMOVE_PRIVATE_AS_OPTION_ALL \<or> opt = REMOVE_PRIVATE_AS_OPTION_REPLACE
          then setPathAttr (NewPathAttributeAsPath (remove_private localAS opt v)) p else p)"

definition removeConfedAs :: "'n path \<Rightarrow> 'n path" where
  "removeConfedAs p =
     (case GetAsPath p of
        None \<Rightarrow> p
      | Some v \<Rightarrow> setPathAttr (NewPathAttributeAsPath
          (filter (\<lambda>q. param_GetType q = BGP_ASPATH_ATTR_TYPE_SEQ \<or>
                       param_GetType q = BGP_ASPATH_ATTR_TYPE_SET) v)) p)"

definition ReplaceAS :: "u32 \<Rightarrow> u32 \<Rightarrow> 'n path \<Rightarrow> 'n path" where
  "ReplaceAS localAS peerAS p =
     (case GetAsPath p of
        None \<Rightarrow> p
      | Some v \<Rightarrow>
          let v' = map (\<lambda>q. NewAs4PathParam (param_GetType q)
                      (map (\<lambda>as. if as = peerAS then localAS else as) (param_GetAS q))) v;
              changed = (\<exists>q \<in> set v. peerAS \<in> set (param_GetAS q))
          in if changed
             then setPathAttr (NewPathAttributeAsPath v') (Clone (IsWithdraw (layer p)) p) else p)"

subsection \<open>Communities, MED, local preference and the rest\<close>

definition GetCommunities :: "'n path \<Rightarrow> u32 list" where
  "GetCommunities p =
     (case getPathAttr BGP_ATTR_TYPE_COMMUNITIES p of
        Some a \<Rightarrow> (case attr_value a of PathAttributeCommunities v \<Rightarrow> v | _ \<Rightarrow> [])
      | None \<Rightarrow> [])"

definition SetCommunities :: "u32 list \<Rightarrow> bool \<Rightarrow> 'n path \<Rightarrow> 'n path" where
  "SetCommunities cs doReplace p =
     (if cs = [] \<and> doReplace then delPathAttr BGP_ATTR_TYPE_COMMUNITIES p
      else let newList = (case getPathAttr BGP_ATTR_TYPE_COMMUNITIES p of
                 Some _ \<Rightarrow> if doReplace then cs else GetCommunities p @ cs
               | None \<Rightarrow> cs)
           in setPathAttr (NewPathAttributeCommunities newList) p)"

definition RemoveCommunities :: "u32 list \<Rightarrow> 'n path \<Rightarrow> 'n path \<times> nat" where
  "RemoveCommunities cs p =
     (if cs = [] then (p, 0)
      else case getPathAttr BGP_ATTR_TYPE_COMMUNITIES p of
             None \<Rightarrow> (p, 0)
           | Some _ \<Rightarrow>
               let newList = filter (\<lambda>c. c \<notin> set cs) (GetCommunities p);
                   count = length (filter (\<lambda>c. c \<in> set cs) (GetCommunities p))
               in (if newList \<noteq> [] then setPathAttr (NewPathAttributeCommunities newList) p
                   else delPathAttr BGP_ATTR_TYPE_COMMUNITIES p, count))"

definition HasNoLLGR :: "'n path \<Rightarrow> bool" where
  "HasNoLLGR p \<longleftrightarrow> 0xffff0007 \<in> set (GetCommunities p)"

definition IsLLGRStale :: "'n path \<Rightarrow> bool" where
  "IsLLGRStale p \<longleftrightarrow> 0xffff0006 \<in> set (GetCommunities p)"

definition GetExtCommunities :: "'n path \<Rightarrow> ext_community list" where
  "GetExtCommunities p =
     (case getPathAttr BGP_ATTR_TYPE_EXTENDED_COMMUNITIES p of
        Some a \<Rightarrow> (case attr_value a of PathAttributeExtendedCommunities v \<Rightarrow> v | _ \<Rightarrow> [])
      | None \<Rightarrow> [])"

definition SetExtCommunities :: "ext_community list \<Rightarrow> bool \<Rightarrow> 'n path \<Rightarrow> 'n path" where
  "SetExtCommunities exts doReplace p =
     (if exts = [] then (if doReplace then delPathAttr BGP_ATTR_TYPE_EXTENDED_COMMUNITIES p else p)
      else setPathAttr (NewPathAttributeExtendedCommunities
             (if getPathAttr BGP_ATTR_TYPE_EXTENDED_COMMUNITIES p \<noteq> None \<and> \<not> doReplace
              then GetExtCommunities p @ exts else exts)) p)"

fun is_route_target :: "ext_community \<Rightarrow> bool" where
  "is_route_target (ExtCommunity t st _) \<longleftrightarrow> t \<le> 2 \<and> st = 2"

definition GetRouteTargets :: "'n path \<Rightarrow> ext_community list" where
  "GetRouteTargets p = filter is_route_target (GetExtCommunities p)"

definition GetLargeCommunities :: "'n path \<Rightarrow> LargeCommunity list" where
  "GetLargeCommunities p =
     (case getPathAttr BGP_ATTR_TYPE_LARGE_COMMUNITY p of
        Some a \<Rightarrow> (case attr_value a of PathAttributeLargeCommunities v \<Rightarrow> v | _ \<Rightarrow> [])
      | None \<Rightarrow> [])"

definition SetLargeCommunities :: "LargeCommunity list \<Rightarrow> bool \<Rightarrow> 'n path \<Rightarrow> 'n path" where
  "SetLargeCommunities cs doReplace p =
     (if cs = [] \<and> doReplace then delPathAttr BGP_ATTR_TYPE_LARGE_COMMUNITY p
      else if getPathAttr BGP_ATTR_TYPE_LARGE_COMMUNITY p = None \<or> doReplace
      then setPathAttr (NewPathAttributeLargeCommunities cs) p
      else setPathAttr (NewPathAttributeLargeCommunities (GetLargeCommunities p @ cs)) p)"

definition GetMed :: "'n path \<Rightarrow> (unit, u32) res" where
  "GetMed p =
     (case getPathAttr BGP_ATTR_TYPE_MULTI_EXIT_DISC p of
        Some a \<Rightarrow> (case attr_value a of PathAttributeMultiExitDisc v \<Rightarrow> Inr v | _ \<Rightarrow> Inl Panic)
      | None \<Rightarrow> Inl (Err ()))"

definition SetMed :: "int \<Rightarrow> bool \<Rightarrow> 'n path \<Rightarrow> (unit, 'n path) res" where
  "SetMed med doReplace p =
     (let m = (case GetMed p of Inr v \<Rightarrow> v | Inl _ \<Rightarrow> 0);
          medVal = uint m + med
      in if doReplace then Inr (setPathAttr (NewPathAttributeMultiExitDisc (word_of_int med)) p)
         else if medVal < 0 then Inl (Err ())
         else if medVal > 4294967295 then Inl (Err ())
         else Inr (setPathAttr (NewPathAttributeMultiExitDisc (word_of_int medVal)) p))"

definition GetLocalPref :: "'n path \<Rightarrow> u32" where
  "GetLocalPref p =
     (case getPathAttr BGP_ATTR_TYPE_LOCAL_PREF p of
        Some a \<Rightarrow> (case attr_value a of PathAttributeLocalPref v \<Rightarrow> v | _ \<Rightarrow> 100)
      | None \<Rightarrow> 100)"

definition RemoveLocalPref :: "'n path \<Rightarrow> 'n path" where
  "RemoveLocalPref p =
     (if getPathAttr BGP_ATTR_TYPE_LOCAL_PREF p \<noteq> None then delPathAttr BGP_ATTR_TYPE_LOCAL_PREF p else p)"

definition remove_if_present :: "u8 \<Rightarrow> 'n path \<Rightarrow> 'n path" where
  "remove_if_present t p = (if getPathAttr t p \<noteq> None then delPathAttr t p else p)"

definition RemoveReflectionAttrs :: "'n path \<Rightarrow> 'n path" where
  "RemoveReflectionAttrs p =
     remove_if_present BGP_ATTR_TYPE_CLUSTER_LIST (remove_if_present BGP_ATTR_TYPE_ORIGINATOR_ID p)"

definition GetOriginatorID :: "'n path \<Rightarrow> addr" where
  "GetOriginatorID p =
     (case getPathAttr BGP_ATTR_TYPE_ORIGINATOR_ID p of
        Some a \<Rightarrow> (case attr_value a of PathAttributeOriginatorId v \<Rightarrow> v | _ \<Rightarrow> AddrNone)
      | None \<Rightarrow> AddrNone)"

definition GetClusterList :: "'n path \<Rightarrow> addr list" where
  "GetClusterList p =
     (case getPathAttr BGP_ATTR_TYPE_CLUSTER_LIST p of
        Some a \<Rightarrow> (case attr_value a of PathAttributeClusterList v \<Rightarrow> v | _ \<Rightarrow> [])
      | None \<Rightarrow> [])"

definition GetOrigin :: "'n path \<Rightarrow> u8 option" where
  "GetOrigin p =
     (case getPathAttr BGP_ATTR_TYPE_ORIGIN p of
        Some a \<Rightarrow> (case attr_value a of PathAttributeOrigin v \<Rightarrow> Some v | _ \<Rightarrow> None)
      | None \<Rightarrow> None)"

subsection \<open>Next hops\<close>

definition nexthops :: "'n path \<Rightarrow> Nexthops" where
  "nexthops p = (case nh (layer p) of None \<Rightarrow> \<lparr>global_nh = AddrNone, linkLocal = AddrNone\<rparr> | Some n \<Rightarrow> n)"

definition GetNexthop :: "'n path \<Rightarrow> addr" where
  "GetNexthop p =
     (let n = nexthops p
      in if IsUnspecified (global_nh n) \<and> IsLinkLocalUnicast (linkLocal n) then linkLocal n else global_nh n)"

definition setNexthopsShared :: "Nexthops \<Rightarrow> 'n path \<Rightarrow> 'n path" where
  "setNexthopsShared n p = (if nh (layer p) = None then p else upd_fields (nh_update (\<lambda>_. Some n)) p)"

definition SetNexthop :: "addr \<Rightarrow> 'n path \<Rightarrow> 'n path" where
  "SetNexthop a p = setNexthopsShared \<lparr>global_nh = a, linkLocal = AddrNone\<rparr> p"

fun insertPathAttr :: "path_attr list \<Rightarrow> path_attr \<Rightarrow> path_attr list" where
  "insertPathAttr [] a = [a]"
| "insertPathAttr (b # bs) a = (if GetType b > GetType a then a # b # bs else b # insertPathAttr bs a)"

definition learnedOnSameLink :: "PeerInfo \<Rightarrow> 'n path \<Rightarrow> bool" where
  "learnedOnSameLink info p \<longleftrightarrow>
     Zone (Address (GetSource p)) \<noteq> [] \<and> Zone (Address (GetSource p)) = Zone (Address info)"

definition updateLinkLocalNexthop :: "PeerInfo \<Rightarrow> 'n path \<Rightarrow> 'n path" where
  "updateLinkLocalNexthop info p =
     (let g = global_nh (nexthops p); l = linkLocal (nexthops p);
          onLink = (Is6 g \<and> \<not> Is4In6 g \<and> (IsUnspecified g \<or> IsLinkLocalUnicast g))
      in if \<not> onLink \<and> \<not> IsLinkLocalUnicast l then p
         else if learnedOnSameLink info p then p
         else if IsLocal p \<and> \<not> IsUnspecified g then p
         else SetNexthop (if onLink then WithZone (LocalAddress info) [] else g) p)"

subsection \<open>The attribute store of a path\<close>

text \<open>
  What the table code relies on when it reads, sets and deletes attributes of a path. An
  attribute type is \<open>writable\<close> when it has not been deleted in the newest layer; a clone has
  every type writable.
\<close>

locale attr_store =
  fixes get :: "u8 \<Rightarrow> 's \<Rightarrow> path_attr option"
    and put :: "path_attr \<Rightarrow> 's \<Rightarrow> 's"
    and del :: "u8 \<Rightarrow> 's \<Rightarrow> 's"
    and clone :: "bool \<Rightarrow> 's \<Rightarrow> 's"
    and writable :: "u8 \<Rightarrow> 's \<Rightarrow> bool"
  assumes get_put: "writable (GetType a) s \<Longrightarrow> get t (put a s) = (if t = GetType a then Some a else get t s)"
    and get_del: "get t (del t' s) = (if t = t' then None else get t s)"
    and get_clone: "get t (clone w s) = get t s"
    and writable_put: "writable t (put a s) = writable t s"
    and writable_del: "writable t (del t' s) = (t \<noteq> t' \<and> writable t s)"
    and writable_clone: "writable t (clone w s)"
    and get_put_other: "t \<noteq> GetType a \<Longrightarrow> get t (put a s) = get t s"
begin

lemma put_put: "writable (GetType a) s \<Longrightarrow> GetType b = GetType a \<Longrightarrow> get t (put b (put a s)) = get t (put b s)"
  by (simp add: get_put writable_put)

lemma del_foldl: "get t (foldl (\<lambda>s t'. del t' s) s ts) = (if t \<in> set ts then None else get t s)"
  by (induction ts arbitrary: s) (auto simp: get_del)

lemma writable_del_foldl: "writable t (foldl (\<lambda>s t'. del t' s) s ts) = (t \<notin> set ts \<and> writable t s)"
  by (induction ts arbitrary: s) (auto simp: writable_del)

end

definition writable_attr :: "u8 \<Rightarrow> 'n path \<Rightarrow> bool" where
  "writable_attr t p \<longleftrightarrow> t \<notin> set (dels (layer p))"

lemma find_replace_attr:
  "find (\<lambda>b. GetType b = t) (replace_attr a as) =
     (if t = GetType a then Some a else find (\<lambda>b. GetType b = t) as)"
  by (induction as) auto

interpretation path_store: attr_store getPathAttr setPathAttr delPathAttr Clone writable_attr
proof
  show "getPathAttr t (setPathAttr a s) = (if t = GetType a then Some a else getPathAttr t s)"
    if "writable_attr (GetType a) s" for a t and s :: "'a path"
    using that by (cases s) (simp_all add: setPathAttr_def writable_attr_def find_replace_attr)
  show "getPathAttr t (delPathAttr t' s) = (if t = t' then None else getPathAttr t s)"
    for t t' and s :: "'a path"
    by (cases s) (auto simp: delPathAttr_def)
  show "getPathAttr t (Clone w s) = getPathAttr t s" for t w and s :: "'a path"
    by (simp add: Clone_def)
  show "writable_attr t (setPathAttr a s) = writable_attr t s" for t a and s :: "'a path"
    by (cases s) (simp_all add: setPathAttr_def writable_attr_def)
  show "writable_attr t (delPathAttr t' s) = (t \<noteq> t' \<and> writable_attr t s)" for t t' and s :: "'a path"
    by (cases s) (auto simp: delPathAttr_def writable_attr_def)
  show "writable_attr t (Clone w s)" for t w and s :: "'a path"
    by (simp add: Clone_def writable_attr_def)
  show "getPathAttr t (setPathAttr a s) = getPathAttr t s" if "t \<noteq> GetType a" for t a and s :: "'a path"
    using that by (cases s) (simp_all add: setPathAttr_def find_replace_attr)
qed

lemmas store_simps = path_store.get_put path_store.get_del path_store.get_clone path_store.writable_put
  path_store.writable_del path_store.writable_clone path_store.get_put_other

lemma fields_setPathAttr [simp]:
  "nh (layer (setPathAttr a p)) = nh (layer p)" "IsWithdraw (layer (setPathAttr a p)) = IsWithdraw (layer p)"
  "OriginInfo (setPathAttr a p) = OriginInfo p" "family (layer (setPathAttr a p)) = family (layer p)"
  "localID (layer (setPathAttr a p)) = localID (layer p)" "remoteID (layer (setPathAttr a p)) = remoteID (layer p)"
  by (cases p; simp add: setPathAttr_def)+

lemma fields_delPathAttr [simp]:
  "nh (layer (delPathAttr t p)) = nh (layer p)" "IsWithdraw (layer (delPathAttr t p)) = IsWithdraw (layer p)"
  "OriginInfo (delPathAttr t p) = OriginInfo p" "family (layer (delPathAttr t p)) = family (layer p)"
  "localID (layer (delPathAttr t p)) = localID (layer p)" "remoteID (layer (delPathAttr t p)) = remoteID (layer p)"
  by (cases p; simp add: delPathAttr_def)+

lemma fields_Clone [simp]:
  "nh (layer (Clone w p)) = nh (layer p)" "IsWithdraw (layer (Clone w p)) = w"
  "OriginInfo (Clone w p) = OriginInfo p" "family (layer (Clone w p)) = family (layer p)"
  "localID (layer (Clone w p)) = localID (layer p)" "remoteID (layer (Clone w p)) = remoteID (layer p)"
  "IsNexthopInvalid (layer (Clone w p)) = IsNexthopInvalid (layer p)"
  by (simp_all add: Clone_def)

subsection \<open>\<open>GetPathAttrs\<close> lists what \<open>getPathAttr\<close> finds\<close>

abbreviation (input) find_attr :: "u8 \<Rightarrow> path_attr list \<Rightarrow> path_attr option" where
  "find_attr t as \<equiv> find (\<lambda>a. GetType a = t) as"

lemma find_attr_None: "find_attr t as = None \<longleftrightarrow> t \<notin> GetType ` set as"
  by (auto simp: find_None_iff)

lemma find_attr_append: "find_attr t (as @ bs) = (case find_attr t as of Some a \<Rightarrow> Some a | None \<Rightarrow> find_attr t bs)"
  by (induction as) auto

lemma find_add_modified:
  "find_attr t (add_modified deleted modified as) =
     (case find_attr t modified of Some m \<Rightarrow> Some m
      | None \<Rightarrow> if t \<in> set deleted then None else find_attr t as)"
  by (induction deleted modified as rule: add_modified.induct) (auto simp: find_attr_append split: option.splits)

lemma distinct_add_modified:
  "distinct (map GetType modified) \<Longrightarrow> distinct (map GetType (add_modified deleted modified as))"
  by (induction deleted modified as rule: add_modified.induct) (auto simp: find_attr_None)

lemma find_filter_other: "t \<noteq> t' \<Longrightarrow> find_attr t (filter (\<lambda>m. GetType m \<noteq> t') ms) = find_attr t ms"
  by (induction ms) auto

lemma find_filter_same: "find_attr t (filter (\<lambda>m. GetType m \<noteq> t) ms) = None"
  by (induction ms) auto

lemma find_attr_type: "find_attr t as = Some a \<Longrightarrow> GetType a = t"
  by (induction as) (auto split: if_splits)

lemma find_attr_iff:
  "distinct (map GetType as) \<Longrightarrow> find_attr t as = Some a \<longleftrightarrow> a \<in> set as \<and> GetType a = t"
  by (induction as) (auto simp: image_iff)

lemma find_attr_set_cong:
  assumes "distinct (map GetType as)" and "distinct (map GetType bs)" and "set as = set bs"
  shows "find_attr t as = find_attr t bs"
proof (cases "find_attr t as")
  case None
  then have "find_attr t bs = None" using assms(3) by (simp add: find_attr_None)
  then show ?thesis using None by simp
next
  case (Some a)
  then have "find_attr t bs = Some a" using assms(3) by (simp only: find_attr_iff [OF assms(1)] find_attr_iff [OF assms(2)])
  then show ?thesis using Some by simp
qed

lemma root_list_types:
  "GetType ` set (fst (root_list deleted modified as)) \<union> GetType ` set (snd (root_list deleted modified as))
     \<subseteq> GetType ` set modified \<union> GetType ` set as"
proof (induction deleted modified as rule: root_list.induct)
  case (2 deleted modified a as)
  show ?case
  proof (cases "find_attr (GetType a) modified")
    case None
    then show ?thesis using 2(1) [OF None] by (auto simp: case_prod_beta Let_def)
  next
    case (Some m)
    then have "GetType m = GetType a" by (rule find_attr_type)
    then show ?thesis using 2(2) [OF Some] Some by (auto simp: case_prod_beta Let_def)
  qed
qed simp

lemma root_list_distinct:
  assumes "distinct (map GetType modified)" and "distinct (map GetType as)"
  shows "distinct (map GetType (fst (root_list deleted modified as) @ snd (root_list deleted modified as)))"
  using assms
proof (induction deleted modified as rule: root_list.induct)
  case (2 deleted modified a as)
  show ?case
  proof (cases "find_attr (GetType a) modified")
    case None
    then have "GetType a \<notin> GetType ` set modified" by (simp add: find_attr_None)
    then show ?thesis
      using 2(1) [OF None] 2(3,4) None root_list_types [of deleted modified as]
      by (auto simp: case_prod_beta Let_def)
  next
    case (Some m)
    then have m: "GetType m = GetType a" by (rule find_attr_type)
    define ms where "ms = filter (\<lambda>m. GetType m \<noteq> GetType a) modified"
    have "distinct (map GetType ms)" using 2(3) by (simp add: ms_def distinct_map_filter)
    moreover have "GetType a \<notin> GetType ` set ms \<union> GetType ` set as" using 2(4) by (auto simp: ms_def)
    ultimately show ?thesis
      using 2(2) [OF Some] 2(4) Some m root_list_types [of deleted ms as]
      by (auto simp: case_prod_beta Let_def simp flip: ms_def)
  qed
qed simp

lemma root_list_find:
  assumes "distinct (map GetType as)"
  shows "find_attr t (fst (root_list deleted modified as) @ snd (root_list deleted modified as)) =
    (case find_attr t modified of Some m \<Rightarrow> Some m
     | None \<Rightarrow> if t \<in> set deleted then None else find_attr t as)"
  using assms
proof (induction deleted modified as rule: root_list.induct)
  case (1 deleted modified)
  then show ?case by (auto split: option.split)
next
  case (2 deleted modified a as)
  show ?case
  proof (cases "find_attr (GetType a) modified")
    case None
    have "find_attr (GetType a) as = None" using 2(3) by (simp add: find_attr_None)
    then show ?thesis using 2(1) [OF None] 2(3) None
      by (auto simp: case_prod_beta Let_def find_attr_append split: option.splits)
  next
    case (Some m)
    then have "GetType m = GetType a" by (rule find_attr_type)
    then show ?thesis using 2(2) [OF Some] 2(3) Some
      by (cases "t = GetType a")
        (auto simp: case_prod_beta Let_def find_filter_other find_attr_append split: option.splits)
  qed
qed

fun root_attrs :: "'n path \<Rightarrow> path_attr list" where
  "root_attrs (Root _ f) = pathAttrs f"
| "root_attrs (Child p _) = root_attrs p"

lemma walk_find:
  assumes "distinct (map GetType (root_attrs p))" and "distinct (map GetType modified)"
  shows "distinct (map GetType (path_attrs_walk deleted modified p)) \<and>
    find_attr t (path_attrs_walk deleted modified p) =
      (case find_attr t modified of Some m \<Rightarrow> Some m
       | None \<Rightarrow> if t \<in> set deleted then None else getPathAttr t p)"
  using assms
proof (induction deleted modified p rule: path_attrs_walk.induct)
  case (1 deleted modified i f)
  define r where "r = root_list (deleted @ dels f) modified (pathAttrs f)"
  have d: "distinct (map GetType (fst r @ snd r))"
    using 1 by (simp only: r_def root_list_distinct root_attrs.simps)
  have s: "set (sort_key GetType (fst r @ snd r)) = set (fst r @ snd r)"
    "distinct (map GetType (sort_key GetType (fst r @ snd r)))"
    using d by (simp_all only: distinct_map set_sort distinct_sort simp_thms)
  have "find_attr t (path_attrs_walk deleted modified (Root i f)) = find_attr t (fst r @ snd r)"
    using find_attr_set_cong [OF s(2) d s(1)] by (simp add: r_def [symmetric] case_prod_beta Let_def)
  moreover have "distinct (map GetType (path_attrs_walk deleted modified (Root i f)))"
    using d s(2) by (simp add: r_def [symmetric] case_prod_beta Let_def)
  ultimately show ?case
    using 1 root_list_find [of "pathAttrs f" t "deleted @ dels f" modified]
    by (simp add: r_def [symmetric] split: option.split)
next
  case (2 deleted modified p f)
  then show ?case by (auto simp: distinct_add_modified find_add_modified split: option.splits)
qed

text \<open>C31: \<open>GetPathAttrs\<close>, which assembles the attributes of a layered path in one walk,
  agrees with \<open>getPathAttr\<close>, which searches the layers for one type: it lists each visible
  attribute exactly once, and nothing else.\<close>

theorem GetPathAttrs_getPathAttr:
  assumes "distinct (map GetType (root_attrs p))"
  shows "distinct (map GetType (GetPathAttrs p)) \<and> (a \<in> set (GetPathAttrs p) \<longleftrightarrow> getPathAttr (GetType a) p = Some a)"
  using walk_find [OF assms, of "[]" "[]" "GetType a"] find_attr_iff [of "GetPathAttrs p" "GetType a" a]
  by (simp add: GetPathAttrs_def)

theorem GetPathAttrs_getPathAttr_witness:
  "let p = setPathAttr (NewPathAttributeMultiExitDisc 7) (delPathAttr 5 (Clone False
       (Root \<lparr>nlri = (), source = localSource, timestamp = 0, stale = False, noImplicitWithdraw = False,
          isFromExternal = False, eor = False\<rparr>
        \<lparr>pathAttrs = [NewPathAttributeOrigin 0, NewPathAttributeLocalPref 200], dels = [], attrsHash = 0, nh = None,
          localID = 0, remoteID = 0, family = RF_IPv4_UC, rejected = False, dropped = False,
          IsNexthopInvalid = False, IsWithdraw = False\<rparr>)))
   in NewPathAttributeMultiExitDisc 7 \<in> set (GetPathAttrs p)"
  unfolding Let_def
  by (subst GetPathAttrs_getPathAttr [THEN conjunct2])
    (simp_all add: setPathAttr_def delPathAttr_def Clone_def new_attr_def GetType_def
      NewPathAttributeMultiExitDisc_def NewPathAttributeOrigin_def NewPathAttributeLocalPref_def)

subsection \<open>AS_PATH rewriting\<close>

text \<open>A path for the examples: one received from AS 65001 with the given attributes.\<close>

definition ex_source :: PeerInfo where
  "ex_source = localSource\<lparr>PeerType := PEER_TYPE_EXTERNAL, AS := 65001, ID := Addr4 0x0A000001,
     Address := Addr4 0x0A000001, LocalAS := 65000, LocalID := Addr4 0x0A0000FE, LocalAddress := Addr4 0x0A0000FE\<rparr>"

definition ex_path :: "path_attr list \<Rightarrow> unit path" where
  "ex_path attrs = Root \<lparr>nlri = (), source = ex_source, timestamp = 0, stale = False, noImplicitWithdraw = False,
      isFromExternal = False, eor = False\<rparr>
    \<lparr>pathAttrs = attrs, dels = [], attrsHash = 0, nh = Some \<lparr>global_nh = Addr4 0x0A000001, linkLocal = AddrNone\<rparr>,
      localID = 0, remoteID = 0, family = RF_IPv4_UC, rejected = False, dropped = False,
      IsNexthopInvalid = False, IsWithdraw = False\<rparr>"

lemma ex_path_simps [simp]:
  "writable_attr t (ex_path as)" "GetAsPath (ex_path [NewPathAttributeAsPath v]) = Some v"
  "GetMed (ex_path [NewPathAttributeMultiExitDisc m]) = Inr m"
  by (simp_all add: ex_path_def writable_attr_def GetAsPath_def GetMed_def NewPathAttributeAsPath_def
      NewPathAttributeMultiExitDisc_def new_attr_def GetType_def Let_def)

definition flat_as :: "as_param list \<Rightarrow> u32 list" where
  "flat_as ps = concat (map param_GetAS ps)"

lemma param_GetAS_New [simp]: "param_GetAS (NewAs4PathParam t as) = as" "param_GetType (NewAs4PathParam t as) = t"
  by (simp_all add: NewAs4PathParam_def)

lemma flat_as_simps [simp]:
  "flat_as [] = []" "flat_as (q # qs) = param_GetAS q @ flat_as qs" "flat_as (cloneAsPath ps) = flat_as ps"
  by (simp_all add: flat_as_def cloneAsPath_def comp_def)

lemma GetAsPath_set [simp]:
  "writable_attr BGP_ATTR_TYPE_AS_PATH p \<Longrightarrow> GetAsPath (setPathAttr (NewPathAttributeAsPath v) p) = Some v"
  by (simp add: GetAsPath_def store_simps NewPathAttributeAsPath_def new_attr_def GetType_def Let_def)

lemma GetAsPath_set_value [simp]:
  "writable_attr BGP_ATTR_TYPE_AS_PATH p \<Longrightarrow>
   GetAsPath (setPathAttr ((NewPathAttributeAsPath ps)\<lparr>attr_value := PathAttributeAsPath v\<rparr>) p) = Some v"
  by (simp add: GetAsPath_def store_simps NewPathAttributeAsPath_def new_attr_def GetType_def Let_def)

lemma GetType_value_update [simp]: "GetType (a\<lparr>attr_value := v\<rparr>) = GetType a"
  by (simp add: GetType_def)

lemma GetType_NewAsPath [simp]: "GetType (NewPathAttributeAsPath v) = BGP_ATTR_TYPE_AS_PATH"
  by (simp add: NewPathAttributeAsPath_def new_attr_def GetType_def Let_def)

lemma wrap_255:
  assumes "n \<le> 255"
  shows "unat (word_of_int (255 - int n) :: u8) = 255 - n"
proof -
  have "(word_of_int (255 - int n) :: u8) = word_of_int (int (255 - n))" using assms by (simp add: of_nat_diff)
  also have "\<dots> = of_nat (255 - n)" by simp
  finally show ?thesis by (simp add: unat_of_nat take_bit_nat_eq_self del: of_nat_diff)
qed

lemma prepend_as_flat:
  assumes "\<forall>q \<in> set ps. length (param_GetAS q) \<le> 255" and "unat repeat < 255"
  shows "\<exists>v. prepend_as asn repeat segType ps = Inr v \<and> flat_as v = replicate (unat repeat) asn @ flat_as ps \<and>
    (\<forall>q \<in> set v. length (param_GetAS q) \<le> 255)"
proof (cases ps)
  case Nil
  then show ?thesis using assms(2) by (simp add: prepend_as_def prepend_segments_def)
next
  case (Cons q rest)
  define n where "n = length (param_GetAS q)"
  have n: "n \<le> 255" using assms(1) Cons by (simp add: n_def)
  show ?thesis
  proof (cases "unat repeat + n > 255")
    case True
    then have "replicate (255 - n) asn @ replicate (unat repeat - (255 - n)) asn = replicate (unat repeat) asn"
      using n by (simp flip: replicate_add)
    then have r: "replicate (unat repeat - (255 - n)) asn @ replicate (255 - n) asn = replicate (unat repeat) asn"
      by (simp add: replicate_add [symmetric] add.commute)
    moreover have "\<not> unat repeat < 255 - n" "unat repeat + n - 255 \<le> 255" "255 - n + n = 255"
      using True n assms(2) by linarith+
    ultimately show ?thesis
      using True n assms wrap_255 [OF n] Cons
      by (simp add: prepend_as_def prepend_segments_def Let_def min_def flip: n_def) auto
  next
    case False
    have "n = 0 \<longleftrightarrow> param_GetAS q = []" by (simp add: n_def)
    then show ?thesis
      using False n assms Cons by (auto simp: prepend_as_def prepend_segments_def Let_def simp flip: n_def)
  qed
qed

text \<open>C32: Prepending fewer than 255 copies of an AS number puts exactly these copies in front
  of the AS numbers of the path, starts a new segment when the first one would grow beyond
  255 numbers, and changes no other attribute.\<close>

theorem PrependAsn_prepends:
  assumes "writable_attr BGP_ATTR_TYPE_AS_PATH p" and "unat repeat < 255" and "GetAsPath p = Some v"
    and "\<forall>q \<in> set v. length (param_GetAS q) \<le> 255"
  shows "\<exists>p' v'. PrependAsn asn repeat confed p = Inr p' \<and> GetAsPath p' = Some v' \<and>
    flat_as v' = replicate (unat repeat) asn @ flat_as v \<and> (\<forall>q \<in> set v'. length (param_GetAS q) \<le> 255) \<and>
    (\<forall>t. t \<noteq> BGP_ATTR_TYPE_AS_PATH \<longrightarrow> getPathAttr t p' = getPathAttr t p)"
proof -
  have "\<forall>q \<in> set (cloneAsPath v). length (param_GetAS q) \<le> 255"
    using assms(4) by (auto simp: cloneAsPath_def)
  then obtain v' where "prepend_as asn repeat (if confed then 3 else 2) (cloneAsPath v) = Inr v'"
    "flat_as v' = replicate (unat repeat) asn @ flat_as v" "\<forall>q \<in> set v'. length (param_GetAS q) \<le> 255"
    using prepend_as_flat [OF _ assms(2)] by fastforce
  then show ?thesis using assms(1,3) by (simp add: PrependAsn_def store_simps)
qed

theorem PrependAsn_prepends_witness:
  "\<exists>p' v'. PrependAsn 7 2 False (ex_path [NewPathAttributeAsPath [NewAs4PathParam 2 [65001, 9]]]) = Inr p' \<and>
    GetAsPath p' = Some v' \<and> flat_as v' = [7, 7, 65001, 9]"
proof -
  have "replicate 2 (7 :: u32) = [7, 7]" by code_simp
  then show ?thesis
    using PrependAsn_prepends [of "ex_path [NewPathAttributeAsPath [NewAs4PathParam 2 [65001, 9]]]" 2
      "[NewAs4PathParam 2 [65001, 9]]" 7 False]
    by auto
qed

text \<open>C33: Prepending 255 copies in front of a sequence of \<open>n\<close> AS numbers, \<open>n\<close> at least one,
  is wrong: the append overwrites the copies that were left for the new segment, so the path
  starts with the old sequence once more instead of \<open>n\<close> copies of the AS number.\<close>

theorem PrependAsn_255_overwrites:
  assumes "writable_attr BGP_ATTR_TYPE_AS_PATH p" and "GetAsPath p = Some (q # rest)"
    and "param_GetType q = BGP_ASPATH_ATTR_TYPE_SEQ" and "param_GetAS q \<noteq> []" and "length (param_GetAS q) \<le> 255"
  shows "\<exists>p' v'. PrependAsn asn 255 False p = Inr p' \<and> GetAsPath p' = Some v' \<and>
    flat_as v' = param_GetAS q @ replicate (255 - length (param_GetAS q)) asn @ param_GetAS q @ flat_as rest"
proof -
  define n where "n = length (param_GetAS q)"
  have n: "n \<le> 255" "n \<noteq> 0" using assms(4,5) by (simp_all add: n_def)
  then have "\<not> 255 < 255 - n" "255 - n \<noteq> 255" by linarith+
  have "prepend_as asn 255 2 (cloneAsPath (q # rest)) =
      Inr (NewAs4PathParam 2 (param_GetAS q) #
        NewAs4PathParam 2 (replicate (255 - n) asn @ param_GetAS q) # cloneAsPath rest)"
    using \<open>255 - n \<noteq> 255\<close> n wrap_255 [OF n(1)] assms(3,4)
    by (simp add: prepend_as_def prepend_segments_def cloneAsPath_def Let_def min_def flip: n_def)
  then show ?thesis using assms(1,2) by (simp add: PrependAsn_def n_def)
qed

theorem PrependAsn_255_overwrites_witness:
  "\<exists>p' v'. PrependAsn 7 255 False (ex_path [NewPathAttributeAsPath [NewAs4PathParam 2 [65001, 9]]]) = Inr p' \<and>
    GetAsPath p' = Some v' \<and> flat_as v' = [65001, 9] @ replicate 253 7 @ [65001, 9]"
  using PrependAsn_255_overwrites [of "ex_path [NewPathAttributeAsPath [NewAs4PathParam 2 [65001, 9]]]"
      "NewAs4PathParam 2 [65001, 9]" "[]" 7]
  by simp

text \<open>C35: After \<open>removeConfedAs\<close> no confederation segment is left, and the length the
  best-path decision sees is the same as before.\<close>

theorem removeConfedAs_keeps_length:
  assumes "writable_attr BGP_ATTR_TYPE_AS_PATH p" and "GetAsPath p = Some v"
  shows "\<exists>v'. GetAsPath (removeConfedAs p) = Some v' \<and>
    (\<forall>q \<in> set v'. param_GetType q = BGP_ASPATH_ATTR_TYPE_SEQ \<or> param_GetType q = BGP_ASPATH_ATTR_TYPE_SET) \<and>
    GetAsPathLen (removeConfedAs p) = GetAsPathLen p"
proof -
  have "sum_list (map param_ASLen (filter (\<lambda>q. param_GetType q = 2 \<or> param_GetType q = 1) v)) =
      sum_list (map param_ASLen v)"
    by (induction v) (simp_all add: param_ASLen_def)
  then show ?thesis using assms by (simp add: removeConfedAs_def GetAsPathLen_def)
qed

theorem removeConfedAs_keeps_length_witness:
  "GetAsPathLen (removeConfedAs (ex_path [NewPathAttributeAsPath [NewAs4PathParam 3 [64600], NewAs4PathParam 2 [1, 2]]])) =
   GetAsPathLen (ex_path [NewPathAttributeAsPath [NewAs4PathParam 3 [64600], NewAs4PathParam 2 [1, 2]]])"
  using removeConfedAs_keeps_length [of "ex_path [NewPathAttributeAsPath [NewAs4PathParam 3 [64600], NewAs4PathParam 2 [1, 2]]]"
      "[NewAs4PathParam 3 [64600], NewAs4PathParam 2 [1, 2]]"]
  by auto

lemma flat_remove_private:
  "flat_as (remove_private l opt v) =
     concat (map (\<lambda>q. concat (map (\<lambda>as. if isPrivateAS as
       then (if opt = REMOVE_PRIVATE_AS_OPTION_REPLACE then [l] else []) else [as]) (param_GetAS q))) v)"
proof -
  have "flat_as (if xs \<noteq> [] then [NewAs4PathParam t xs] else []) = xs" for t xs by simp
  then show ?thesis
    unfolding remove_private_def Let_def
    by (induction v) (simp_all only: flat_as_def list.map concat.simps map_append concat_append)
qed

text \<open>C34: After \<open>RemovePrivateAS\<close> with option \<open>all\<close> no private AS number is left in the
  AS_PATH and every public one is kept, in order; with \<open>replace\<close> the number of AS numbers is
  unchanged.\<close>

theorem RemovePrivateAS_spec:
  assumes "writable_attr BGP_ATTR_TYPE_AS_PATH p" and "GetAsPath p = Some v"
  shows "\<exists>v1 v2. GetAsPath (RemovePrivateAS l REMOVE_PRIVATE_AS_OPTION_ALL p) = Some v1 \<and>
    flat_as v1 = filter (\<lambda>as. \<not> isPrivateAS as) (flat_as v) \<and>
    GetAsPath (RemovePrivateAS l REMOVE_PRIVATE_AS_OPTION_REPLACE p) = Some v2 \<and>
    flat_as v2 = map (\<lambda>as. if isPrivateAS as then l else as) (flat_as v)"
proof -
  have all: "concat (map (\<lambda>as. if isPrivateAS as then [] else [as]) xs) = filter (\<lambda>as. \<not> isPrivateAS as) xs" for xs
    by (induction xs) simp_all
  have repl: "concat (map (\<lambda>as. if isPrivateAS as then [l] else [as]) xs) =
      map (\<lambda>as. if isPrivateAS as then l else as) xs" for xs
    by (induction xs) simp_all
  have "flat_as (remove_private l REMOVE_PRIVATE_AS_OPTION_ALL v) = filter (\<lambda>as. \<not> isPrivateAS as) (flat_as v)"
    by (simp add: flat_remove_private all) (simp add: flat_as_def filter_concat comp_def)
  moreover have "flat_as (remove_private l REMOVE_PRIVATE_AS_OPTION_REPLACE v) =
      map (\<lambda>as. if isPrivateAS as then l else as) (flat_as v)"
    by (simp add: flat_remove_private repl) (simp add: flat_as_def map_concat comp_def)
  ultimately show ?thesis using assms by (simp add: RemovePrivateAS_def)
qed

theorem RemovePrivateAS_spec_witness:
  "\<exists>v1. GetAsPath (RemovePrivateAS 9 REMOVE_PRIVATE_AS_OPTION_ALL
      (ex_path [NewPathAttributeAsPath [NewAs4PathParam 2 [64512, 3, 65534]]])) = Some v1 \<and> flat_as v1 = [3]"
  using RemovePrivateAS_spec [of "ex_path [NewPathAttributeAsPath [NewAs4PathParam 2 [64512, 3, 65534]]]"
      "[NewAs4PathParam 2 [64512, 3, 65534]]" 9]
  by (auto simp: isPrivateAS_def)

subsection \<open>MED and communities\<close>

text \<open>C36: Adding to the MED succeeds exactly when the sum is a 32-bit number, and then the
  path has that MED and no other attribute changed.\<close>

theorem SetMed_add:
  assumes "writable_attr BGP_ATTR_TYPE_MULTI_EXIT_DISC p" and "GetMed p = Inr m"
  shows "if 0 \<le> uint m + d \<and> uint m + d \<le> 4294967295
    then \<exists>p'. SetMed d False p = Inr p' \<and> (\<exists>m'. GetMed p' = Inr m' \<and> uint m' = uint m + d) \<and>
      (\<forall>t. t \<noteq> BGP_ATTR_TYPE_MULTI_EXIT_DISC \<longrightarrow> getPathAttr t p' = getPathAttr t p)
    else SetMed d False p = Inl (Err ())"
proof -
  have t: "GetType (NewPathAttributeMultiExitDisc v) = BGP_ATTR_TYPE_MULTI_EXIT_DISC" for v
    by (simp add: NewPathAttributeMultiExitDisc_def new_attr_def GetType_def)
  have "GetMed (setPathAttr (NewPathAttributeMultiExitDisc v) p) = Inr v" for v
    using assms(1) by (simp add: GetMed_def store_simps t)
      (simp add: NewPathAttributeMultiExitDisc_def new_attr_def)
  then show ?thesis
    using assms(2) by (auto simp: SetMed_def Let_def t store_simps unsigned_of_int take_bit_int_eq_self simp del: of_int_add)
qed

theorem SetMed_add_witness:
  "SetMed (-6) False (ex_path [NewPathAttributeMultiExitDisc 5]) = Inl (Err ())"
  using SetMed_add [of "ex_path [NewPathAttributeMultiExitDisc 5]" 5 "-6"] by simp

text \<open>C37: Clearing the communities and then setting new ones in the same layer of a path
  leaves it without communities: the deletion recorded first hides every later one. (The same
  two calls with a \<open>Clone\<close> in between give the new communities.)\<close>

theorem SetCommunities_after_clear:
  "GetCommunities (SetCommunities cs r (SetCommunities [] True p)) = [] \<and>
   GetCommunities (SetCommunities cs False (Clone w (SetCommunities [] True p))) = cs"
proof -
  have t: "GetType (NewPathAttributeCommunities v) = BGP_ATTR_TYPE_COMMUNITIES" for v
    by (simp add: NewPathAttributeCommunities_def new_attr_def GetType_def)
  have hidden: "getPathAttr BGP_ATTR_TYPE_COMMUNITIES
      (setPathAttr a (delPathAttr BGP_ATTR_TYPE_COMMUNITIES p)) = None" for a
    by (cases p) (simp_all add: setPathAttr_def delPathAttr_def)
  show ?thesis
    by (simp add: SetCommunities_def GetCommunities_def hidden store_simps t Let_def)
      (simp add: NewPathAttributeCommunities_def new_attr_def)
qed

end
