(* ===== verification/Path_Export.thy ===== *)
theory Path_Export
  imports Path
begin

section \<open>Attributes of an advertised path: \<open>UpdatePathAttrs\<close> of \<open>path.go\<close>\<close>

text \<open>
  What a path looks like when it is sent to a peer: unknown attributes that are not transitive and,
  except for route reflector clients, the route reflection attributes are removed; the next hop,
  AS_PATH, MED, LOCAL_PREF and the route reflection attributes are set for an external or an internal
  peer. The result is a clone of the path; a storing of a \<open>nil\<close> CLUSTER_LIST is a panic. LOCAL_PREF
  is kept for the export policy to see, and removed for external peers after the policy, by
  \<open>postFilterpath\<close>.
\<close>

definition strip_attr :: "PeerInfo \<Rightarrow> path_attr \<Rightarrow> bool" where
  "strip_attr info a =
     (case map_of PathAttrFlags (GetType a) of
        None \<Rightarrow> GetFlags a AND BGP_ATTR_FLAG_TRANSITIVE = 0
      | Some _ \<Rightarrow> (GetType a = BGP_ATTR_TYPE_CLUSTER_LIST \<or> GetType a = BGP_ATTR_TYPE_ORIGINATOR_ID) \<and>
          (PeerType info \<noteq> PEER_TYPE_INTERNAL \<or> \<not> RouteReflectorClient info))"

fun strip_attrs :: "PeerInfo \<Rightarrow> path_attr list \<Rightarrow> 'n path \<Rightarrow> 'n path" where
  "strip_attrs info [] p = p"
| "strip_attrs info (a # as) p = strip_attrs info as (if strip_attr info a then delPathAttr (GetType a) p else p)"

definition export_external :: "Global \<Rightarrow> PeerInfo \<Rightarrow> addr \<Rightarrow> 'n path \<Rightarrow> (unit, 'n path) res" where
  "export_external g info nexthop p =
     (let p1 = (if \<not> IsLocal p \<or> IsUnspecified nexthop then setNexthopsShared (localAddressNexthops info) p else p);
          p2 = RemovePrivateAS (LocalAS info) (RemovePrivateAs info) p1;
          confed = IsConfederationMember g (AS info)
      in rbind (PrependAsn (LocalAS info) 1 confed p2) (\<lambda>p3.
         let p4 = (if \<not> confed then removeConfedAs p3 else p3)
         in Inr (if getPathAttr BGP_ATTR_TYPE_MULTI_EXIT_DISC p4 \<noteq> None \<and> \<not> IsLocal p4
                 then delPathAttr BGP_ATTR_TYPE_MULTI_EXIT_DISC p4 else p4)))"

definition reflect :: "Global \<Rightarrow> PeerInfo \<Rightarrow> 'n path \<Rightarrow> (unit, 'n path) res" where
  "reflect g info p =
     (let src = GetSource p;
          rtc = (family (layer p) = RF_RTC_UC);
          p1 = (if rtc then setNexthopsShared (localAddressNexthops info) p else p);
          attr = (if rtc then (if IsLocal p1 then NewPathAttributeOriginatorId (RouterId g)
                               else NewPathAttributeOriginatorId (LocalID src))
                  else if getPathAttr BGP_ATTR_TYPE_ORIGINATOR_ID p1 = None
                  then (if IsLocal p1 then NewPathAttributeOriginatorId (RouterId g)
                        else NewPathAttributeOriginatorId (ID src))
                  else None);
          p2 = (case attr of Some a \<Rightarrow> setPathAttr a p1 | None \<Rightarrow> p1);
          pa = NewPathAttributeClusterList (RouteReflectorClusterID info # GetClusterList p2)
      in case pa of Some a \<Rightarrow> Inr (setPathAttr a p2) | None \<Rightarrow> Inl Panic)"

definition export_internal :: "Global \<Rightarrow> PeerInfo \<Rightarrow> addr \<Rightarrow> 'n path \<Rightarrow> (unit, 'n path) res" where
  "export_internal g info nexthop p =
     (let p1 = (if IsLocal p \<and> IsUnspecified nexthop then setNexthopsShared (localAddressNexthops info) p else p)
      in rbind (if getPathAttr BGP_ATTR_TYPE_AS_PATH p1 = None then PrependAsn 0 0 False p1 else Inr p1) (\<lambda>p2.
         let p3 = (if getPathAttr BGP_ATTR_TYPE_LOCAL_PREF p2 = None
                   then setPathAttr (NewPathAttributeLocalPref 100) p2 else p2)
         in if RouteReflectorClient info then reflect g info p3 else Inr p3))"

definition UpdatePathAttrs :: "Global \<Rightarrow> PeerInfo \<Rightarrow> 'n path \<Rightarrow> (unit, 'n path) res" where
  "UpdatePathAttrs g info original =
     (if RouteServerClient info then Inr original
      else let p = Clone (IsWithdraw (layer original)) original;
               p1 = updateLinkLocalNexthop info (strip_attrs info (GetPathAttrs p) p);
               nexthop = GetNexthop p1
           in case PeerType info of
                PEER_TYPE_EXTERNAL \<Rightarrow> export_external g info nexthop p1
              | PEER_TYPE_INTERNAL \<Rightarrow> export_internal g info nexthop p1
              | PEER_TYPE_UNSPECIFIED \<Rightarrow> Inr p1)"

subsection \<open>After the export policy: \<open>postFilterpath\<close> of \<open>server.go\<close>\<close>

text \<open>The export policy comes after \<open>UpdatePathAttrs\<close> and may set LOCAL_PREF, so that is removed last. Of
  the configuration of the neighbor only what decides on long-lived graceful restart
  is modelled; the peer type and the route server option are those of the peer information, which
  \<open>NewPeerInfo\<close> copies from the configuration.\<close>

record AfiSafi =
  afi_Family :: u32
  llgr_Enabled :: bool

record Neighbor =
  LongLivedEnabled :: bool
  AfiSafis :: "AfiSafi list"

definition configuredRFlist :: "Neighbor \<Rightarrow> u32 list" where
  "configuredRFlist conf = map afi_Family (AfiSafis conf)"

fun classifyFamilies :: "u32 list \<Rightarrow> u32 list \<Rightarrow> u32 list \<times> u32 list" where
  "classifyFamilies [] part = ([], [])"
| "classifyFamilies (f # all) part =
     (let (a, b) = classifyFamilies all part in if f \<in> set part then (f # a, b) else (a, f # b))"

definition llgrFamilies :: "Neighbor \<Rightarrow> u32 list \<times> u32 list" where
  "llgrFamilies conf = classifyFamilies (configuredRFlist conf) (map afi_Family (filter llgr_Enabled (AfiSafis conf)))"

definition isLLGREnabledFamily :: "Neighbor \<Rightarrow> u32 \<Rightarrow> bool" where
  "isLLGREnabledFamily conf f \<longleftrightarrow> LongLivedEnabled conf \<and> f \<in> set (fst (llgrFamilies conf))"

definition postFilterpath :: "Neighbor \<Rightarrow> PeerInfo \<Rightarrow> 'n path option \<Rightarrow> 'n path option" where
  "postFilterpath conf info path =
     (case path of
        None \<Rightarrow> None
      | Some p \<Rightarrow>
          let p1 = (if \<not> IsWithdraw (layer p) \<and> \<not> isLLGREnabledFamily conf (family (layer p)) \<and> IsLLGRStale p
                    then Clone True p else p)
          in Some (if PeerType info \<noteq> PEER_TYPE_INTERNAL \<and> \<not> RouteServerClient info then RemoveLocalPref p1 else p1))"

subsection \<open>What the steps keep\<close>

lemma strip_attrs_get:
  "getPathAttr t (strip_attrs info as p) = (if \<exists>a \<in> set as. GetType a = t \<and> strip_attr info a then None else getPathAttr t p)"
  by (induction info as p rule: strip_attrs.induct) (auto simp: store_simps)

lemma strip_attrs_writable:
  "writable_attr t (strip_attrs info as p) \<longleftrightarrow> writable_attr t p \<and> \<not> (\<exists>a \<in> set as. GetType a = t \<and> strip_attr info a)"
  by (induction info as p rule: strip_attrs.induct) (auto simp: store_simps)

lemma strip_attrs_keeps [simp]:
  "OriginInfo (strip_attrs info as p) = OriginInfo p" "nh (layer (strip_attrs info as p)) = nh (layer p)"
  "family (layer (strip_attrs info as p)) = family (layer p)" "IsWithdraw (layer (strip_attrs info as p)) = IsWithdraw (layer p)"
  by (induction info as p rule: strip_attrs.induct) simp_all

lemma nexthops_keep [simp]:
  "OriginInfo (setNexthopsShared n p) = OriginInfo p" "getPathAttr t (setNexthopsShared n p) = getPathAttr t p"
  "family (layer (setNexthopsShared n p)) = family (layer p)" "writable_attr t (setNexthopsShared n p) = writable_attr t p"
  "nh (layer (setNexthopsShared n p)) = (if nh (layer p) = None then None else Some n)"
  "IsWithdraw (layer (setNexthopsShared n p)) = IsWithdraw (layer p)"
  by (cases p; auto simp: setNexthopsShared_def writable_attr_def)+

lemma linklocal_keeps [simp]:
  "OriginInfo (updateLinkLocalNexthop info p) = OriginInfo p"
  "getPathAttr t (updateLinkLocalNexthop info p) = getPathAttr t p"
  "family (layer (updateLinkLocalNexthop info p)) = family (layer p)"
  "writable_attr t (updateLinkLocalNexthop info p) = writable_attr t p"
  "nh (layer (updateLinkLocalNexthop info p)) = None \<longleftrightarrow> nh (layer p) = None"
  "IsWithdraw (layer (updateLinkLocalNexthop info p)) = IsWithdraw (layer p)"
  by (simp_all add: updateLinkLocalNexthop_def Let_def SetNexthop_def)

lemma IsLocal_cong: "OriginInfo p = OriginInfo q \<Longrightarrow> IsLocal p = IsLocal q"
  by (simp add: IsLocal_def)

lemma GetAsPath_cong: "(\<And>t. getPathAttr t p = getPathAttr t q) \<Longrightarrow> GetAsPath p = GetAsPath q"
  by (simp add: GetAsPath_def)

lemma GetPathAttrs_iff:
  assumes "distinct (map GetType (root_attrs p))"
  shows "a \<in> set (GetPathAttrs p) \<longleftrightarrow> getPathAttr (GetType a) p = Some a"
  using walk_find [OF assms, of "[]" "[]" "GetType a"] find_attr_iff [of "GetPathAttrs p" "GetType a" a]
  by (simp add: GetPathAttrs_def)

lemma getPathAttr_type: "getPathAttr t p = Some a \<Longrightarrow> GetType a = t"
  by (induction p) (auto split: if_splits option.splits dest: find_attr_type)

text \<open>The path as it is before the rules for the kind of the peer apply.\<close>

definition stripped :: "PeerInfo \<Rightarrow> 'n path \<Rightarrow> 'n path" where
  "stripped info p = updateLinkLocalNexthop info
     (strip_attrs info (GetPathAttrs (Clone (IsWithdraw (layer p)) p)) (Clone (IsWithdraw (layer p)) p))"

lemma stripped_get:
  assumes "distinct (map GetType (root_attrs p))"
  shows "getPathAttr t (stripped info p) =
    (case getPathAttr t p of Some a \<Rightarrow> if strip_attr info a then None else Some a | None \<Rightarrow> None)"
proof -
  have "distinct (map GetType (root_attrs (Clone (IsWithdraw (layer p)) p)))" using assms by (simp add: Clone_def)
  from GetPathAttrs_iff [OF this] show ?thesis
    by (auto simp: stripped_def strip_attrs_get store_simps split: option.split dest: getPathAttr_type)
qed

lemma stripped_writable:
  assumes "distinct (map GetType (root_attrs p))"
  shows "writable_attr t (stripped info p) \<longleftrightarrow> (\<forall>a. getPathAttr t p = Some a \<longrightarrow> \<not> strip_attr info a)"
proof -
  have "distinct (map GetType (root_attrs (Clone (IsWithdraw (layer p)) p)))" using assms by (simp add: Clone_def)
  from GetPathAttrs_iff [OF this] show ?thesis
    by (auto simp: stripped_def strip_attrs_writable store_simps dest: getPathAttr_type)
qed

lemma stripped_keeps [simp]:
  "OriginInfo (stripped info p) = OriginInfo p" "family (layer (stripped info p)) = family (layer p)"
  "nh (layer (stripped info p)) = None \<longleftrightarrow> nh (layer p) = None" "IsWithdraw (layer (stripped info p)) = IsWithdraw (layer p)"
  by (simp_all add: stripped_def)

lemma strip_known:
  assumes "getPathAttr t p = Some a" and "t \<in> {1, 2, 3, 4, 5, 6, 7, 8, 16, 32}"
  shows "\<not> strip_attr info a"
  using assms(2) getPathAttr_type [OF assms(1)] by (auto simp: strip_attr_def PathAttrFlags_def)

abbreviation (input) not_confed :: "as_param \<Rightarrow> bool" where
  "not_confed q \<equiv> param_GetType q = BGP_ASPATH_ATTR_TYPE_SEQ \<or> param_GetType q = BGP_ASPATH_ATTR_TYPE_SET"

lemma prepend_one:
  assumes "\<forall>q \<in> set ps. length (param_GetAS q) \<le> 255"
  shows "\<exists>v. prepend_as asn 1 BGP_ASPATH_ATTR_TYPE_SEQ ps = Inr v \<and>
    flat_as (filter not_confed v) = asn # flat_as (filter not_confed ps)"
proof (cases ps)
  case Nil
  then show ?thesis by (simp add: prepend_as_def prepend_segments_def)
next
  case (Cons q rest)
  show ?thesis
  proof (cases "param_GetType q = BGP_ASPATH_ATTR_TYPE_SEQ")
    case False
    then show ?thesis using Cons by (simp add: prepend_as_def prepend_segments_def)
  next
    case True
    define n where "n = length (param_GetAS q)"
    have n: "n \<le> 255" using assms Cons by (simp add: n_def)
    show ?thesis
    proof (cases "n = 255")
      case n255: True
      then show ?thesis using True Cons wrap_255 [OF n]
        by (simp add: prepend_as_def prepend_segments_def Let_def flip: n_def)
    next
      case False
      then have "\<not> 1 + n > 255" using n by linarith
      moreover have "n = 0 \<longleftrightarrow> param_GetAS q = []" by (simp add: n_def)
      ultimately show ?thesis using True Cons n
        by (auto simp: prepend_as_def prepend_segments_def Let_def simp flip: n_def)
    qed
  qed
qed

text \<open>The AS numbers an external peer sees behind the local one.\<close>

definition exported_as :: "PeerInfo \<Rightarrow> 'n path \<Rightarrow> u32 list" where
  "exported_as info p = flat_as (filter not_confed
     (case GetAsPath p of
        None \<Rightarrow> []
      | Some v \<Rightarrow> if RemovePrivateAs info = REMOVE_PRIVATE_AS_OPTION_NONE then v
                  else remove_private (LocalAS info) (RemovePrivateAs info) v))"

lemma length_concat_map_le: "(\<And>x. length (f x) \<le> 1) \<Longrightarrow> length (concat (map f xs)) \<le> length xs"
proof (induction xs)
  case (Cons x xs)
  then show ?case using add_mono [of "length (f x)" 1 "length (concat (map f xs))" "length xs"] by simp
qed simp

lemma remove_private_length:
  "\<forall>q \<in> set v. length (param_GetAS q) \<le> 255 \<Longrightarrow> \<forall>q \<in> set (remove_private l opt v). length (param_GetAS q) \<le> 255"
proof -
  have "length (concat (map (\<lambda>as. if isPrivateAS as then (if opt = REMOVE_PRIVATE_AS_OPTION_REPLACE then [l] else []) else [as]) xs))
      \<le> length xs" for xs
    by (rule length_concat_map_le) simp
  then show "\<forall>q \<in> set v. length (param_GetAS q) \<le> 255 \<Longrightarrow> ?thesis"
    by (fastforce simp: remove_private_def Let_def intro: order_trans split: if_splits)
qed

lemma RemovePrivateAS_keeps [simp]:
  "t \<noteq> BGP_ATTR_TYPE_AS_PATH \<Longrightarrow> getPathAttr t (RemovePrivateAS l opt p) = getPathAttr t p"
  "OriginInfo (RemovePrivateAS l opt p) = OriginInfo p" "nh (layer (RemovePrivateAS l opt p)) = nh (layer p)"
  "writable_attr t (RemovePrivateAS l opt p) = writable_attr t p"
  "family (layer (RemovePrivateAS l opt p)) = family (layer p)" "IsWithdraw (layer (RemovePrivateAS l opt p)) = IsWithdraw (layer p)"
  by (simp_all add: RemovePrivateAS_def store_simps split: option.split)

lemma GetAsPath_RemovePrivateAS:
  assumes "writable_attr BGP_ATTR_TYPE_AS_PATH p"
  shows "GetAsPath (RemovePrivateAS l opt p) = (case GetAsPath p of None \<Rightarrow> None
    | Some v \<Rightarrow> Some (if opt = REMOVE_PRIVATE_AS_OPTION_NONE then v else remove_private l opt v))"
  using assms by (cases opt) (simp_all add: RemovePrivateAS_def split: option.split)

lemma flat_filter_clone [simp]: "flat_as (filter not_confed (cloneAsPath v)) = flat_as (filter not_confed v)"
  by (induction v) (simp_all add: cloneAsPath_def)

lemma removeConfedAs_keeps [simp]:
  "t \<noteq> BGP_ATTR_TYPE_AS_PATH \<Longrightarrow> getPathAttr t (removeConfedAs p) = getPathAttr t p"
  "OriginInfo (removeConfedAs p) = OriginInfo p" "nh (layer (removeConfedAs p)) = nh (layer p)"
  "family (layer (removeConfedAs p)) = family (layer p)" "IsWithdraw (layer (removeConfedAs p)) = IsWithdraw (layer p)"
  by (simp_all add: removeConfedAs_def store_simps split: option.split)

lemma export_external_spec:
  assumes "writable_attr BGP_ATTR_TYPE_AS_PATH p" and "\<not> IsConfederationMember g (AS info)"
    and "\<forall>v. GetAsPath p = Some v \<longrightarrow> (\<forall>q \<in> set v. length (param_GetAS q) \<le> 255)"
  shows "\<exists>p' v'. export_external g info nexthop p = Inr p' \<and> GetAsPath p' = Some v' \<and> list_all not_confed v' \<and>
    flat_as v' = LocalAS info # exported_as info p \<and> OriginInfo p' = OriginInfo p \<and>
    family (layer p') = family (layer p) \<and> IsWithdraw (layer p') = IsWithdraw (layer p) \<and>
    (\<not> IsLocal p \<longrightarrow> getPathAttr BGP_ATTR_TYPE_MULTI_EXIT_DISC p' = None) \<and>
    (\<not> IsLocal p \<longrightarrow> nh (layer p') = (if nh (layer p) = None then None else Some (localAddressNexthops info))) \<and>
    (\<forall>t. t \<noteq> BGP_ATTR_TYPE_AS_PATH \<and> (t \<noteq> BGP_ATTR_TYPE_MULTI_EXIT_DISC \<or> IsLocal p) \<longrightarrow> getPathAttr t p' = getPathAttr t p)"
proof -
  define p1 where "p1 = (if \<not> IsLocal p \<or> IsUnspecified nexthop then setNexthopsShared (localAddressNexthops info) p else p)"
  define p2 where "p2 = RemovePrivateAS (LocalAS info) (RemovePrivateAs info) p1"
  define v where "v = (case GetAsPath p2 of None \<Rightarrow> [] | Some w \<Rightarrow> w)"
  have p1: "\<And>t. getPathAttr t p1 = getPathAttr t p" "writable_attr BGP_ATTR_TYPE_AS_PATH p1" "OriginInfo p1 = OriginInfo p"
    using assms(1) by (auto simp: p1_def)
  have nh1: "\<not> IsLocal p \<longrightarrow> nh (layer p1) = (if nh (layer p) = None then None else Some (localAddressNexthops info))"
    by (simp add: p1_def)
  have as2: "GetAsPath p2 = (case GetAsPath p of None \<Rightarrow> None
      | Some v \<Rightarrow> Some (if RemovePrivateAs info = REMOVE_PRIVATE_AS_OPTION_NONE then v
                         else remove_private (LocalAS info) (RemovePrivateAs info) v))"
    using GetAsPath_RemovePrivateAS [OF p1(2)] GetAsPath_cong [of p1 p] p1(1) by (simp add: p2_def)
  have "\<forall>q \<in> set (cloneAsPath v). length (param_GetAS q) \<le> 255"
    using assms(3) remove_private_length by (auto simp: v_def as2 cloneAsPath_def split: option.splits if_splits)
  then obtain w where w: "prepend_as (LocalAS info) 1 BGP_ASPATH_ATTR_TYPE_SEQ (cloneAsPath v) = Inr w"
      "flat_as (filter not_confed w) = LocalAS info # exported_as info p"
    using prepend_one [of "cloneAsPath v" "LocalAS info"] by (auto simp: v_def as2 exported_as_def split: option.splits)
  define p3 where "p3 = setPathAttr ((NewPathAttributeAsPath (cloneAsPath v))\<lparr>attr_value := PathAttributeAsPath w\<rparr>) p2"
  have pre: "PrependAsn (LocalAS info) 1 False p2 = Inr p3"
    using w(1) by (auto simp: PrependAsn_def v_def p3_def cloneAsPath_def split: option.splits)
  have f1: "family (layer p1) = family (layer p)" "IsWithdraw (layer p1) = IsWithdraw (layer p)" by (simp_all add: p1_def)
  have p3: "GetAsPath p3 = Some w" "OriginInfo p3 = OriginInfo p" "nh (layer p3) = nh (layer p1)"
      "\<And>t. t \<noteq> BGP_ATTR_TYPE_AS_PATH \<Longrightarrow> getPathAttr t p3 = getPathAttr t p" "writable_attr BGP_ATTR_TYPE_AS_PATH p3"
      "family (layer p3) = family (layer p)" "IsWithdraw (layer p3) = IsWithdraw (layer p)"
    using p1 f1 by (simp_all add: p3_def p2_def store_simps)
  have as4: "GetAsPath (removeConfedAs p3) = Some (filter not_confed w)"
    using p3(1,5) by (simp add: removeConfedAs_def)
  have as_del: "GetAsPath (delPathAttr BGP_ATTR_TYPE_MULTI_EXIT_DISC q) = GetAsPath q" for q :: "'a path"
    by (simp add: GetAsPath_def store_simps)
  have ex: "export_external g info nexthop p = Inr (if getPathAttr BGP_ATTR_TYPE_MULTI_EXIT_DISC (removeConfedAs p3) \<noteq> None \<and>
      \<not> IsLocal (removeConfedAs p3) then delPathAttr BGP_ATTR_TYPE_MULTI_EXIT_DISC (removeConfedAs p3) else removeConfedAs p3)"
    unfolding export_external_def Let_def p1_def [symmetric] p2_def [symmetric]
    using assms(2) pre by (simp only: if_False rbind.simps simp_thms if_True)
  have loc: "IsLocal (removeConfedAs p3) = IsLocal p" by (rule IsLocal_cong) (simp add: p3(2))
  show ?thesis
    using w(2) nh1 p3 as4 as_del loc unfolding ex
    by (auto simp: store_simps list_all_iff)
qed

lemma exported_as_cong: "GetAsPath p = GetAsPath q \<Longrightarrow> exported_as info p = exported_as info q"
  by (simp add: exported_as_def)

lemma UpdatePathAttrs_stripped:
  "\<not> RouteServerClient info \<Longrightarrow> UpdatePathAttrs g info p =
     (case PeerType info of
        PEER_TYPE_EXTERNAL \<Rightarrow> export_external g info (GetNexthop (stripped info p)) (stripped info p)
      | PEER_TYPE_INTERNAL \<Rightarrow> export_internal g info (GetNexthop (stripped info p)) (stripped info p)
      | PEER_TYPE_UNSPECIFIED \<Rightarrow> Inr (stripped info p))"
  by (cases "PeerType info") (simp_all add: UpdatePathAttrs_def stripped_def Let_def)

lemma stripped_get_known:
  assumes "distinct (map GetType (root_attrs p))" and "t \<in> {1, 2, 3, 4, 5, 6, 7, 8, 16, 32}"
  shows "getPathAttr t (stripped info p) = getPathAttr t p" "writable_attr t (stripped info p)"
  using strip_known [OF _ assms(2), of p]
  by (auto simp: stripped_get [OF assms(1)] stripped_writable [OF assms(1)] split: option.split)

lemma GetAsPath_stripped:
  "distinct (map GetType (root_attrs p)) \<Longrightarrow> GetAsPath (stripped info p) = GetAsPath p"
  by (simp add: GetAsPath_def stripped_get_known)

lemma classifyFamilies_filter: "classifyFamilies all part = (filter (\<lambda>f. f \<in> set part) all, filter (\<lambda>f. f \<notin> set part) all)"
  by (induction all part rule: classifyFamilies.induct) simp_all

lemma isLLGREnabledFamily_iff:
  "isLLGREnabledFamily conf f \<longleftrightarrow> LongLivedEnabled conf \<and> (\<exists>a \<in> set (AfiSafis conf). afi_Family a = f \<and> llgr_Enabled a)"
  by (auto simp: isLLGREnabledFamily_def llgrFamilies_def classifyFamilies_filter configuredRFlist_def)

lemma postFilterpath_external:
  assumes "PeerType info = PEER_TYPE_EXTERNAL" and "\<not> RouteServerClient info"
  shows "\<exists>p'. postFilterpath conf info (Some p) = Some p' \<and> getPathAttr BGP_ATTR_TYPE_LOCAL_PREF p' = None \<and>
    (\<forall>t. t \<noteq> BGP_ATTR_TYPE_LOCAL_PREF \<longrightarrow> getPathAttr t p' = getPathAttr t p) \<and> nh (layer p') = nh (layer p) \<and>
    (IsWithdraw (layer p') \<longleftrightarrow> IsWithdraw (layer p) \<or> \<not> isLLGREnabledFamily conf (family (layer p)) \<and> IsLLGRStale p)"
  using assms by (auto simp: postFilterpath_def RemoveLocalPref_def Let_def store_simps)

text \<open>C14: what is sent to an external peer that is neither a member of the confederation nor a route
  server client, when the export policy leaves the path as it is and the type of every
  attribute occurs once. The AS_PATH starts with the local AS number, followed by
  the AS numbers the path had except those of confederation segments and, if the peer is
  configured so, private ones. A path learned from a peer is sent with the local address as its next
  hop and without MED. No path is sent with LOCAL_PREF, which the export policy still sees, with
  ORIGINATOR_ID or CLUSTER_LIST, or with an unknown attribute that is not transitive. ORIGIN,
  aggregation attributes and communities are kept. An announcement of a long-lived stale
  path is sent as a withdrawal unless long-lived graceful restart is enabled for the peer and the family.\<close>

theorem UpdatePathAttrs_external:
  assumes "PeerType info = PEER_TYPE_EXTERNAL" and "\<not> RouteServerClient info" and "\<not> IsConfederationMember g (AS info)"
    and "distinct (map GetType (root_attrs p))"
    and "\<forall>v. GetAsPath p = Some v \<longrightarrow> (\<forall>q \<in> set v. length (param_GetAS q) \<le> 255)"
  shows "\<exists>p' p'' v'. UpdatePathAttrs g info p = Inr p' \<and>
    getPathAttr BGP_ATTR_TYPE_LOCAL_PREF p' = getPathAttr BGP_ATTR_TYPE_LOCAL_PREF p \<and>
    postFilterpath conf info (Some p') = Some p'' \<and>
    GetAsPath p'' = Some v' \<and> list_all not_confed v' \<and> flat_as v' = LocalAS info # exported_as info p \<and>
    (\<not> IsLocal p \<and> nh (layer p) \<noteq> None \<longrightarrow> nexthops p'' = localAddressNexthops info) \<and>
    (\<not> IsLocal p \<longrightarrow> getPathAttr BGP_ATTR_TYPE_MULTI_EXIT_DISC p'' = None) \<and>
    (\<forall>a. getPathAttr (GetType a) p'' = Some a \<longrightarrow> GetType a \<noteq> BGP_ATTR_TYPE_LOCAL_PREF \<and>
       GetType a \<noteq> BGP_ATTR_TYPE_ORIGINATOR_ID \<and> GetType a \<noteq> BGP_ATTR_TYPE_CLUSTER_LIST \<and>
       (map_of PathAttrFlags (GetType a) = None \<longrightarrow> GetFlags a AND BGP_ATTR_FLAG_TRANSITIVE \<noteq> 0)) \<and>
    (\<forall>t \<in> {1, 6, 7, 8, 16, 32}. getPathAttr t p'' = getPathAttr t p) \<and>
    (IsWithdraw (layer p'') \<longleftrightarrow> IsWithdraw (layer p) \<or> IsLLGRStale p \<and>
       \<not> (LongLivedEnabled conf \<and> (\<exists>a \<in> set (AfiSafis conf). afi_Family a = family (layer p) \<and> llgr_Enabled a)))"
proof -
  let ?s = "stripped info p"
  note g = stripped_get_known [OF assms(4), where info = info]
  have loc: "IsLocal ?s = IsLocal p" by (rule IsLocal_cong) simp
  obtain p' v' where p': "UpdatePathAttrs g info p = Inr p'" "GetAsPath p' = Some v'" "list_all not_confed v'"
      "flat_as v' = LocalAS info # exported_as info p"
      "\<not> IsLocal p \<longrightarrow> getPathAttr BGP_ATTR_TYPE_MULTI_EXIT_DISC p' = None"
      "\<not> IsLocal p \<longrightarrow> nh (layer p') = (if nh (layer p) = None then None else Some (localAddressNexthops info))"
      "\<forall>t. t \<noteq> BGP_ATTR_TYPE_AS_PATH \<and> (t \<noteq> BGP_ATTR_TYPE_MULTI_EXIT_DISC \<or> IsLocal p) \<longrightarrow>
        getPathAttr t p' = getPathAttr t ?s"
      "family (layer p') = family (layer p)" "IsWithdraw (layer p') = IsWithdraw (layer p)"
    using export_external_spec [of ?s g info "GetNexthop ?s"] g(2) [of 2] assms loc
    by (simp add: UpdatePathAttrs_stripped GetAsPath_stripped exported_as_cong [OF GetAsPath_stripped]) blast
  have "GetType a \<noteq> 9 \<and> GetType a \<noteq> 10 \<and> (map_of PathAttrFlags (GetType a) = None \<longrightarrow> GetFlags a AND 0x40 \<noteq> 0)"
    if a: "getPathAttr (GetType a) p' = Some a" for a
  proof (cases "GetType a = 2 \<or> GetType a = 4")
    case True
    then show ?thesis by (auto simp: PathAttrFlags_def)
  next
    case False
    then have "getPathAttr (GetType a) ?s = Some a" using p'(7) a by simp
    then have "\<not> strip_attr info a" using stripped_get [OF assms(4)] by (auto split: option.splits if_splits)
    then show ?thesis using assms(1) by (auto simp: strip_attr_def PathAttrFlags_def split: option.splits)
  qed
  note attrs = this
  have kept: "getPathAttr t p' = getPathAttr t p" if "t \<in> {1, 5, 6, 7, 8, 16, 32}" for t
    using p'(7) g(1) [of t] that by auto
  obtain p'' where p'': "postFilterpath conf info (Some p') = Some p''" "getPathAttr 5 p'' = None"
      "\<And>t. t \<noteq> 5 \<Longrightarrow> getPathAttr t p'' = getPathAttr t p'" "nh (layer p'') = nh (layer p')"
      "IsWithdraw (layer p'') \<longleftrightarrow> IsWithdraw (layer p') \<or> \<not> isLLGREnabledFamily conf (family (layer p')) \<and> IsLLGRStale p'"
    using postFilterpath_external [OF assms(1,2), of conf p'] by auto
  have "GetAsPath p'' = Some v'" using p''(3) [of 2] p'(2) by (simp add: GetAsPath_def)
  moreover have "IsWithdraw (layer p'') \<longleftrightarrow> IsWithdraw (layer p) \<or> IsLLGRStale p \<and>
      \<not> (LongLivedEnabled conf \<and> (\<exists>a \<in> set (AfiSafis conf). afi_Family a = family (layer p) \<and> llgr_Enabled a))"
    using kept [of 8] p'(8,9) p''(5) by (auto simp: IsLLGRStale_def GetCommunities_def isLLGREnabledFamily_iff)
  moreover have "\<not> IsLocal p \<and> nh (layer p) \<noteq> None \<longrightarrow> nexthops p'' = localAddressNexthops info"
    using p'(6) p''(4) by (simp add: nexthops_def)
  moreover have "\<not> IsLocal p \<longrightarrow> getPathAttr 4 p'' = None" using p'(5) p''(3) by simp
  moreover have "GetType a \<noteq> 5 \<and> GetType a \<noteq> 9 \<and> GetType a \<noteq> 10 \<and>
      (map_of PathAttrFlags (GetType a) = None \<longrightarrow> GetFlags a AND 0x40 \<noteq> 0)" if "getPathAttr (GetType a) p'' = Some a" for a
    using attrs [of a] that p''(2) p''(3) [of "GetType a"] by (cases "GetType a = 5") simp_all
  moreover have "\<forall>t \<in> {1, 6, 7, 8, 16, 32}. getPathAttr t p'' = getPathAttr t p" using p''(3) kept by simp
  ultimately show ?thesis using p'(1,3,4) p''(1) kept [of 5] by blast
qed

theorem UpdatePathAttrs_external_witness:
  "\<exists>p' p'' v'. UpdatePathAttrs \<lparr>RouterId = Addr4 1, MemberAsList = []\<rparr> (ex_source\<lparr>AS := 65002\<rparr>)
      (ex_path [NewPathAttributeOrigin 0, NewPathAttributeAsPath [NewAs4PathParam 3 [9], NewAs4PathParam 2 [65001]],
         NewPathAttributeMultiExitDisc 5, NewPathAttributeLocalPref 200]) = Inr p' \<and>
    postFilterpath \<lparr>LongLivedEnabled = False, AfiSafis = []\<rparr> (ex_source\<lparr>AS := 65002\<rparr>) (Some p') = Some p'' \<and>
    GetAsPath p'' = Some v' \<and> flat_as v' = [65000, 65001] \<and> getPathAttr 4 p'' = None \<and>
    getPathAttr 5 p' = Some (NewPathAttributeLocalPref 200) \<and> getPathAttr 1 p'' = Some (NewPathAttributeOrigin 0)"
proof -
  let ?p = "ex_path [NewPathAttributeOrigin 0, NewPathAttributeAsPath [NewAs4PathParam 3 [9], NewAs4PathParam 2 [65001]],
         NewPathAttributeMultiExitDisc 5, NewPathAttributeLocalPref 200]"
  have "PeerType (ex_source\<lparr>AS := 65002\<rparr>) = PEER_TYPE_EXTERNAL" "\<not> RouteServerClient (ex_source\<lparr>AS := 65002\<rparr>)"
      "\<not> IsConfederationMember \<lparr>RouterId = Addr4 1, MemberAsList = []\<rparr> (AS (ex_source\<lparr>AS := 65002\<rparr>))"
      "distinct (map GetType (root_attrs ?p))" "\<not> IsLocal ?p"
      "GetAsPath ?p = Some [NewAs4PathParam 3 [9], NewAs4PathParam 2 [65001]]"
      "LocalAS (ex_source\<lparr>AS := 65002\<rparr>) = 65000" "exported_as (ex_source\<lparr>AS := 65002\<rparr>) ?p = [65001]"
      "getPathAttr 5 ?p = Some (NewPathAttributeLocalPref 200)" "getPathAttr 1 ?p = Some (NewPathAttributeOrigin 0)"
    by code_simp+
  then show ?thesis
    using UpdatePathAttrs_external [of "ex_source\<lparr>AS := 65002\<rparr>" "\<lparr>RouterId = Addr4 1, MemberAsList = []\<rparr>" ?p "\<lparr>LongLivedEnabled = False, AfiSafis = []\<rparr>"]
    by auto
qed

subsection \<open>Route reflection\<close>

lemma NewClusterList_4:
  assumes "list_all Is4 cs"
  shows "\<exists>a. NewPathAttributeClusterList cs = Some a \<and> GetType a = BGP_ATTR_TYPE_CLUSTER_LIST \<and> attr_value a = PathAttributeClusterList cs"
  using assms by (auto simp: NewPathAttributeClusterList_def new_attr_def GetType_def list_all_iff)

lemma reflect_spec:
  assumes "writable_attr BGP_ATTR_TYPE_ORIGINATOR_ID p" and "writable_attr BGP_ATTR_TYPE_CLUSTER_LIST p"
    and "family (layer p) \<noteq> RF_RTC_UC" and "\<not> IsLocal p" and "Is4 (ID (GetSource p))"
    and "list_all Is4 (RouteReflectorClusterID info # GetClusterList p)"
  shows "\<exists>p'. reflect g info p = Inr p' \<and> GetClusterList p' = RouteReflectorClusterID info # GetClusterList p \<and>
    GetOriginatorID p' = (if getPathAttr BGP_ATTR_TYPE_ORIGINATOR_ID p = None then ID (GetSource p) else GetOriginatorID p) \<and>
    nh (layer p') = nh (layer p) \<and> (\<forall>t. t \<notin> {9, 10} \<longrightarrow> getPathAttr t p' = getPathAttr t p)"
proof -
  obtain oa where oa: "NewPathAttributeOriginatorId (ID (GetSource p)) = Some oa" "GetType oa = 9"
      "attr_value oa = PathAttributeOriginatorId (ID (GetSource p))"
    using assms(5) by (simp add: NewPathAttributeOriginatorId_def new_attr_def GetType_def)
  define p2 where "p2 = (if getPathAttr 9 p = None then setPathAttr oa p else p)"
  have cl: "GetClusterList p2 = GetClusterList p" "writable_attr 10 p2" "nh (layer p2) = nh (layer p)"
    using assms(2) oa(2) by (simp_all add: p2_def GetClusterList_def store_simps)
  obtain a where a: "NewPathAttributeClusterList (RouteReflectorClusterID info # GetClusterList p2) = Some a"
      "GetType a = 10" "attr_value a = PathAttributeClusterList (RouteReflectorClusterID info # GetClusterList p2)"
    using NewClusterList_4 [OF assms(6)] cl(1) by auto
  have "reflect g info p = Inr (setPathAttr a p2)"
  proof (cases "getPathAttr 9 p = None")
    case True
    then have "p2 = setPathAttr oa p" by (simp add: p2_def)
    then show ?thesis using assms(3,4) oa(1) a(1) True by (simp add: reflect_def)
  next
    case False
    then have "p2 = p" by (auto simp: p2_def)
    then show ?thesis using assms(3,4) a(1) False by (auto simp: reflect_def)
  qed
  moreover have "GetClusterList (setPathAttr a p2) = RouteReflectorClusterID info # GetClusterList p"
    using a(2,3) cl(1,2) by (simp add: GetClusterList_def [of "setPathAttr a p2"] store_simps)
  moreover have "GetOriginatorID (setPathAttr a p2) =
      (if getPathAttr 9 p = None then ID (GetSource p) else GetOriginatorID p)"
    using assms(1) oa(2,3) a(2) by (simp add: GetOriginatorID_def store_simps p2_def)
  moreover have "\<forall>t. t \<notin> {9, 10} \<longrightarrow> getPathAttr t (setPathAttr a p2) = getPathAttr t p"
    using oa(2) a(2) by (simp add: store_simps p2_def)
  ultimately show ?thesis using cl(3) by simp
qed

text \<open>C15: a path learned from a peer, with an AS_PATH, not of the family of route target
  constraints, as it is prepared for a route reflector client that is not a route server client;
  the type of every attribute occurs once, and the identifiers of the source and of the clusters
  are IPv4 addresses. It keeps its ORIGIN, AS_PATH, MED,
  aggregation attributes, communities and large communities, gets LOCAL_PREF 100 unless it has one,
  gets the identifier of its source as ORIGINATOR_ID unless it names one
  already, and has the local cluster identifier in front of its CLUSTER_LIST. Of the other
  attributes exactly the unknown ones that are not transitive are removed. Its next hop is only
  changed by the rules for link-local addresses.\<close>

theorem UpdatePathAttrs_reflection:
  assumes "PeerType info = PEER_TYPE_INTERNAL" and "\<not> RouteServerClient info" and "RouteReflectorClient info"
    and "\<not> IsLocal p" and "family (layer p) \<noteq> RF_RTC_UC" and "distinct (map GetType (root_attrs p))"
    and "getPathAttr BGP_ATTR_TYPE_AS_PATH p \<noteq> None" and "Is4 (ID (GetSource p))"
    and "list_all Is4 (RouteReflectorClusterID info # GetClusterList p)"
  shows "\<exists>p'. UpdatePathAttrs g info p = Inr p' \<and> GetClusterList p' = RouteReflectorClusterID info # GetClusterList p \<and>
    GetOriginatorID p' = (if getPathAttr BGP_ATTR_TYPE_ORIGINATOR_ID p = None then ID (GetSource p) else GetOriginatorID p) \<and>
    getPathAttr BGP_ATTR_TYPE_LOCAL_PREF p' \<noteq> None \<and> GetLocalPref p' = GetLocalPref p \<and>
    nh (layer p') = nh (layer (stripped info p)) \<and>
    (\<forall>t \<in> {1, 2, 4, 6, 7, 8, 16, 32}. getPathAttr t p' = getPathAttr t p) \<and>
    (\<forall>t. t \<notin> {5, 9, 10} \<longrightarrow> getPathAttr t p' = (case getPathAttr t p of
       Some a \<Rightarrow> if map_of PathAttrFlags t = None \<and> GetFlags a AND BGP_ATTR_FLAG_TRANSITIVE = 0 then None else Some a
     | None \<Rightarrow> None))"
proof -
  let ?s = "stripped info p"
  note g = stripped_get_known [OF assms(6), where info = info]
  have rr: "getPathAttr t ?s = getPathAttr t p" "writable_attr t ?s" if "t \<in> {9, 10}" for t
  proof -
    have "\<not> strip_attr info a" if "getPathAttr t p = Some a" for a
      using \<open>t \<in> {9, 10}\<close> getPathAttr_type [OF that] assms(1,3) by (auto simp: strip_attr_def PathAttrFlags_def)
    then show "getPathAttr t ?s = getPathAttr t p" "writable_attr t ?s"
      by (auto simp: stripped_get [OF assms(6)] stripped_writable [OF assms(6)] split: option.split)
  qed
  define p3 where "p3 = (if getPathAttr 5 ?s = None then setPathAttr (NewPathAttributeLocalPref 100) ?s else ?s)"
  have t5: "GetType (NewPathAttributeLocalPref v) = 5" "attr_value (NewPathAttributeLocalPref v) = PathAttributeLocalPref v" for v
    by (simp_all add: NewPathAttributeLocalPref_def new_attr_def GetType_def)
  have p3: "\<And>t. t \<noteq> 5 \<Longrightarrow> getPathAttr t p3 = getPathAttr t ?s" "\<And>t. t \<noteq> 5 \<Longrightarrow> writable_attr t p3 = writable_attr t ?s"
      "OriginInfo p3 = OriginInfo p" "family (layer p3) = family (layer p)" "nh (layer p3) = nh (layer ?s)"
    by (simp_all add: p3_def store_simps t5(1))
  have lp: "getPathAttr 5 p3 \<noteq> None" "GetLocalPref p3 = GetLocalPref p"
    using g [of 5] by (auto simp: p3_def store_simps t5 GetLocalPref_def)
  have cl: "GetClusterList p3 = GetClusterList p" "getPathAttr 9 p3 = getPathAttr 9 p" "GetOriginatorID p3 = GetOriginatorID p"
    using p3(1) rr(1) by (simp_all add: GetClusterList_def GetOriginatorID_def)
  have loc: "IsLocal p3 = IsLocal p" "IsLocal ?s = IsLocal p" by (rule IsLocal_cong, simp add: p3(3))+
  have "UpdatePathAttrs g info p = reflect g info p3"
    using assms(1-4,7) g(1) [of 2] loc(2) by (auto simp: UpdatePathAttrs_stripped export_internal_def Let_def p3_def)
  moreover obtain p' where p': "reflect g info p3 = Inr p'" "GetClusterList p' = RouteReflectorClusterID info # GetClusterList p"
      "GetOriginatorID p' = (if getPathAttr 9 p = None then ID (GetSource p) else GetOriginatorID p)"
      "nh (layer p') = nh (layer ?s)" "\<forall>t. t \<notin> {9, 10} \<longrightarrow> getPathAttr t p' = getPathAttr t p3"
    using reflect_spec [of p3 info g] p3 rr(2) assms(4,5,8,9) cl loc(1) by auto
  moreover have "GetLocalPref p' = GetLocalPref p" "getPathAttr 5 p' \<noteq> None"
    using p'(5) lp by (simp_all add: GetLocalPref_def)
  moreover have "\<forall>t \<in> {1, 2, 4, 6, 7, 8, 16, 32}. getPathAttr t p' = getPathAttr t p"
    using p'(5) p3(1) g(1) by auto
  moreover have "getPathAttr t p' = (case getPathAttr t p of
      Some a \<Rightarrow> if map_of PathAttrFlags t = None \<and> GetFlags a AND BGP_ATTR_FLAG_TRANSITIVE = 0 then None else Some a
    | None \<Rightarrow> None)" if "t \<notin> {5, 9, 10}" for t
    using that p'(5) p3(1) [of t] stripped_get [OF assms(6), of t info]
    by (auto simp: strip_attr_def split: option.splits dest: getPathAttr_type)
  ultimately show ?thesis by auto
qed

theorem UpdatePathAttrs_reflection_witness:
  "\<exists>p'. UpdatePathAttrs \<lparr>RouterId = Addr4 1, MemberAsList = []\<rparr>
      (ex_source\<lparr>PeerType := PEER_TYPE_INTERNAL, RouteReflectorClient := True, RouteReflectorClusterID := Addr4 7\<rparr>)
      (ex_path [NewPathAttributeAsPath [NewAs4PathParam 2 [65001]]]) = Inr p' \<and> GetClusterList p' = [Addr4 7] \<and>
    GetOriginatorID p' = Addr4 0x0A000001"
proof -
  let ?i = "ex_source\<lparr>PeerType := PEER_TYPE_INTERNAL, RouteReflectorClient := True, RouteReflectorClusterID := Addr4 7\<rparr>"
  let ?p = "ex_path [NewPathAttributeAsPath [NewAs4PathParam 2 [65001]]]"
  have "PeerType ?i = PEER_TYPE_INTERNAL" "\<not> RouteServerClient ?i" "RouteReflectorClient ?i" "\<not> IsLocal ?p"
      "family (layer ?p) \<noteq> RF_RTC_UC" "distinct (map GetType (root_attrs ?p))" "getPathAttr BGP_ATTR_TYPE_AS_PATH ?p \<noteq> None"
      "Is4 (ID (GetSource ?p))" "list_all Is4 (RouteReflectorClusterID ?i # GetClusterList ?p)"
      "GetClusterList ?p = []" "getPathAttr BGP_ATTR_TYPE_ORIGINATOR_ID ?p = None" "ID (GetSource ?p) = Addr4 0x0A000001"
      "RouteReflectorClusterID ?i = Addr4 7"
    by code_simp+
  then show ?thesis using UpdatePathAttrs_reflection [of ?i ?p "\<lparr>RouterId = Addr4 1, MemberAsList = []\<rparr>"] by auto
qed

end
