(* ===== verification/Destination.thy ===== *)
theory Destination
  imports Path
begin

section \<open>Destinations and the best path: \<open>internal/pkg/table/destination.go\<close>\<close>

text \<open>
  A destination holds the paths known for one NLRI, ordered from the most to the least
  preferred, and the map of the local path identifiers in use. \<open>Calculate\<close> takes a new path
  or a withdrawal and returns the lists before and after it.

  \<^item> \<open>sort.Search\<close> is \<open>Search\<close>: the binary search of Go's standard library, over a predicate
    that may panic.
  \<^item> A comparison \<open>compareBy...\<close> returns one of its two arguments or \<open>nil\<close>. Its model returns
    \<open>Some First\<close>, \<open>Some Second\<close> or \<open>None\<close>, because the callers only ask which argument it is.
  \<^item> Two paths are compared by pointer only to shorten an equality test on the values they
    point to; the model compares the values.
  \<^item> The name of a RIB is \<open>GLOBAL_RIB\<close> or that of the route server client whose address it is.
    The code compares the printed form of the addresses, which is equal for equal
    addresses only.
  \<^item> The hash of the \<open>farm\<close> package and the encoding of an NLRI are arguments. A path caches its
    hash in \<open>attrsHash\<close>; \<open>GetHash\<close> returns the value and leaves the store of it out.
\<close>

subsection \<open>Comparing paths: \<open>path.go\<close>\<close>

definition EqualBySourceAndPathID :: "'n path \<Rightarrow> 'n path \<Rightarrow> bool" where
  "EqualBySourceAndPathID l r \<longleftrightarrow>
     PeerInfo_Equal (GetSource l) (GetSource r) \<and> remoteID (layer l) = remoteID (layer r)"

definition Compare :: "'n path \<Rightarrow> 'n path \<Rightarrow> int" where
  "Compare l r =
     (if IsLLGRStale l \<noteq> IsLLGRStale r then (if IsLLGRStale l then -1 else 1)
      else if IsLocal l \<and> \<not> IsLocal r then 1
      else if \<not> IsLocal l \<and> IsLocal r then -1
      else if \<not> IsIBGP l \<and> IsIBGP r then 1
      else if IsIBGP l \<and> \<not> IsIBGP r then -1
      else if GetLocalPref l \<noteq> GetLocalPref r then uint (GetLocalPref l) - uint (GetLocalPref r)
      else if GetAsPathLen l \<noteq> GetAsPathLen r then int (GetAsPathLen r) - int (GetAsPathLen l)
      else let o1 = (case GetOrigin l of Some v \<Rightarrow> v | None \<Rightarrow> 0);
               o2 = (case GetOrigin r of Some v \<Rightarrow> v | None \<Rightarrow> 0)
           in if o1 \<noteq> o2 then uint o2 - uint o1
              else uint (case GetMed r of Inr v \<Rightarrow> v | Inl _ \<Rightarrow> 0) - uint (case GetMed l of Inr v \<Rightarrow> v | Inl _ \<Rightarrow> 0))"

text \<open>\<open>updateHash\<close> drops the error of \<open>Serialize\<close>, which then returned no bytes.\<close>

definition hash_input :: "'n path \<Rightarrow> bytes" where
  "hash_input p = concat (map (\<lambda>a. case attr_Serialize a of Inr d \<Rightarrow> d | Inl _ \<Rightarrow> []) (GetPathAttrs p))"

definition GetHash :: "(bytes \<Rightarrow> u64) \<Rightarrow> 'n path \<Rightarrow> u64" where
  "GetHash farm p = (if attrsHash (layer p) = 0 then farm (hash_input p) else attrsHash (layer p))"

definition Equal :: "(bytes \<Rightarrow> u64) \<Rightarrow> ('n \<Rightarrow> bytes) \<Rightarrow> 'n path \<Rightarrow> 'n path option \<Rightarrow> bool" where
  "Equal farm nlri_bytes l rhs =
     (case rhs of
        None \<Rightarrow> False
      | Some r \<Rightarrow>
          l = r \<or>
          (let la = GetPathAttrs l; ra = GetPathAttrs r in
           if la = [] \<and> ra = [] \<and> nh (layer l) = None \<and> nh (layer r) = None
           then EqualBySourceAndPathID l r
           else length la = length ra \<and>
             PeerInfo_Equal (GetSource l) (GetSource r) \<and>
             (if attrsHash (layer l) > 0 \<and> attrsHash (layer r) > 0
              then attrsHash (layer l) = attrsHash (layer r)
              else list_all2 (\<lambda>a b. GetType a = GetType b \<and> PathAttribute_Len (attr_hdr a) = PathAttribute_Len (attr_hdr b) \<and> GetFlags a = GetFlags b) la ra \<and>
                   GetHash farm l = GetHash farm r) \<and>
             nexthops l = nexthops r \<and>
             nlri_bytes (nlri (OriginInfo l)) = nlri_bytes (nlri (OriginInfo r))))"

subsection \<open>The comparisons of the decision process\<close>

datatype side = First | Second

record RouteSelectionOptionsConfig =
  AlwaysCompareMed :: bool
  IgnoreAsPathLength :: bool
  ExternalCompareRouterId :: bool
  AdvertiseInactiveRoutes :: bool
  EnableAigp :: bool
  IgnoreNextHopIgpMetric :: bool
  DisableBestPathSelection :: bool

definition compareByLLGRStaleCommunity :: "'n path \<Rightarrow> 'n path \<Rightarrow> side option" where
  "compareByLLGRStaleCommunity path1 path2 =
     (if IsLLGRStale path1 = IsLLGRStale path2 then None
      else if IsLLGRStale path1 then Some Second else Some First)"

definition compareByReachableNexthop :: "'n path \<Rightarrow> 'n path \<Rightarrow> side option" where
  "compareByReachableNexthop path1 path2 =
     (if IsNexthopInvalid (layer path1) \<and> \<not> IsNexthopInvalid (layer path2) then Some Second
      else if \<not> IsNexthopInvalid (layer path1) \<and> IsNexthopInvalid (layer path2) then Some First
      else None)"

definition compareByLocalPref :: "'n path \<Rightarrow> 'n path \<Rightarrow> side option" where
  "compareByLocalPref path1 path2 =
     (if GetLocalPref path1 > GetLocalPref path2 then Some First
      else if GetLocalPref path1 < GetLocalPref path2 then Some Second
      else None)"

definition compareByLocalOrigin :: "'n path \<Rightarrow> 'n path \<Rightarrow> side option" where
  "compareByLocalOrigin path1 path2 =
     (if PeerInfo_Equal (GetSource path1) (GetSource path2) then None
      else if IsLocal path1 then Some First
      else if IsLocal path2 then Some Second
      else None)"

definition compareByASPath :: "RouteSelectionOptionsConfig \<Rightarrow> 'n path \<Rightarrow> 'n path \<Rightarrow> side option" where
  "compareByASPath opts path1 path2 =
     (if IgnoreAsPathLength opts then None
      else if GetAsPathLen path1 > GetAsPathLen path2 then Some Second
      else if GetAsPathLen path1 < GetAsPathLen path2 then Some First
      else None)"

definition compareByOrigin :: "'n path \<Rightarrow> 'n path \<Rightarrow> side option" where
  "compareByOrigin path1 path2 =
     (case (GetOrigin path1, GetOrigin path2) of
        (Some origin1, Some origin2) \<Rightarrow>
          if origin1 = origin2 then None else if origin1 < origin2 then Some First else Some Second
      | _ \<Rightarrow> None)"

fun firstAS_of :: "as_param list \<Rightarrow> u32" where
  "firstAS_of [] = 0"
| "firstAS_of (v # vs) =
     (if param_GetAS v = [] then firstAS_of vs
      else if param_GetType v = BGP_ASPATH_ATTR_TYPE_CONFED_SET \<or> param_GetType v = BGP_ASPATH_ATTR_TYPE_CONFED_SEQ
      then firstAS_of vs
      else hd (param_GetAS v))"

definition firstAS :: "'n path \<Rightarrow> u32" where
  "firstAS p = (case GetAsPath p of Some v \<Rightarrow> firstAS_of v | None \<Rightarrow> 0)"

definition getMed :: "'n path \<Rightarrow> u32" where
  "getMed p = (case GetMed p of Inr v \<Rightarrow> v | Inl _ \<Rightarrow> 0)"

definition compareByMED :: "RouteSelectionOptionsConfig \<Rightarrow> 'n path \<Rightarrow> 'n path \<Rightarrow> side option" where
  "compareByMED opts path1 path2 =
     (let isInternal = (GetAsPathLen path1 = 0 \<and> GetAsPathLen path2 = 0);
          isSameAS = (firstAS path1 \<noteq> 0 \<and> firstAS path1 = firstAS path2)
      in if AlwaysCompareMed opts \<or> isInternal \<or> isSameAS
         then if getMed path1 = getMed path2 then None
              else if getMed path1 < getMed path2 then Some First else Some Second
         else None)"

definition compareByASNumber :: "'n path \<Rightarrow> 'n path \<Rightarrow> side option" where
  "compareByASNumber path1 path2 =
     (let isIBGP1 = (Confederation (GetSource path1) \<or> IsIBGP path1);
          isIBGP2 = (Confederation (GetSource path2) \<or> IsIBGP path2)
      in if isIBGP1 \<noteq> isIBGP2 then (if isIBGP1 then Some Second else Some First) else None)"

text \<open>\<open>Uint32\<close> of the router identifier panics for the zero address, which has no bytes. The
  error is the one of comparing an eBGP with an iBGP path.\<close>

definition compareByRouterID ::
    "RouteSelectionOptionsConfig \<Rightarrow> 'n path \<Rightarrow> 'n path \<Rightarrow> (unit, side option) res" where
  "compareByRouterID opts path1 path2 =
     (if IsLocal path1 \<and> IsLocal path2 then Inr None
      else if \<not> ExternalCompareRouterId opts \<and> \<not> IsIBGP path1 \<and> \<not> IsIBGP path2 then Inr None
      else if \<not> ExternalCompareRouterId opts \<and> IsIBGP path1 \<noteq> IsIBGP path2 then Inl (Err ())
      else rbind (get_u32 (AsSlice (ID (GetSource path1))) 0) (\<lambda>id1.
           rbind (get_u32 (AsSlice (ID (GetSource path2))) 0) (\<lambda>id2.
             Inr (if id1 = id2 then None else if id1 < id2 then Some First else Some Second))))"

definition compareByNeighborAddress :: "'n path \<Rightarrow> 'n path \<Rightarrow> side option" where
  "compareByNeighborAddress path1 path2 =
     (let p1 = Address (GetSource path1); p2 = Address (GetSource path2)
      in if \<not> IsValid p1 then Some First
         else if \<not> IsValid p2 then Some Second
         else let cmp = Compare_addr p1 p2
              in if cmp < 0 then Some First else if cmp > 0 then Some Second else None)"

text \<open>\<open>time.Unix(t, 0).UnixNano()\<close> is an \<open>int64\<close>.\<close>

definition UnixNano :: "int \<Rightarrow> int" where
  "UnixNano t = sint (word_of_int (t * 1000000000) :: 64 word)"

definition compareByAge :: "RouteSelectionOptionsConfig \<Rightarrow> 'n path \<Rightarrow> 'n path \<Rightarrow> side option" where
  "compareByAge opts path1 path2 =
     (if \<not> IsIBGP path1 \<and> \<not> IsIBGP path2 \<and> \<not> ExternalCompareRouterId opts
      then let age1 = UnixNano (timestamp (OriginInfo path1)); age2 = UnixNano (timestamp (OriginInfo path2))
           in if age1 = age2 then None else if age1 < age2 then Some First else Some Second
      else None)"

subsection \<open>Insertion by binary search\<close>

function search_between :: "(nat \<Rightarrow> ('e, bool) res) \<Rightarrow> nat \<Rightarrow> nat \<Rightarrow> ('e, nat) res" where
  "search_between f i j =
     (if i < j
      then let h = (i + j) div 2
           in rbind (f h) (\<lambda>b. if \<not> b then search_between f (h + 1) j else search_between f i h)
      else Inr i)"
  by pat_completeness auto
termination by (relation "measure (\<lambda>(f, i, j). j - i)") auto

definition Search :: "nat \<Rightarrow> (nat \<Rightarrow> ('e, bool) res) \<Rightarrow> ('e, nat) res" where
  "Search n f = search_between f 0 n"

text \<open>The function literal of \<open>insertSort\<close>: is \<open>path1\<close> at least as good as \<open>path2\<close>?\<close>

definition decide :: "side option \<Rightarrow> (unit, bool) res \<Rightarrow> (unit, bool) res" where
  "decide b rest = (case b of Some First \<Rightarrow> Inr True | Some Second \<Rightarrow> Inr False | None \<Rightarrow> rest)"

definition better :: "RouteSelectionOptionsConfig \<Rightarrow> 'n path \<Rightarrow> 'n path \<Rightarrow> (unit, bool) res" where
  "better opts path1 path2 =
     decide (compareByLLGRStaleCommunity path1 path2) (
     decide (compareByReachableNexthop path1 path2) (
     decide (compareByLocalPref path1 path2) (
     decide (compareByLocalOrigin path1 path2) (
     decide (compareByASPath opts path1 path2) (
     decide (compareByOrigin path1 path2) (
     decide (compareByMED opts path1 path2) (
     decide (compareByASNumber path1 path2) (
     decide (compareByAge opts path1 path2) (
     rbind (case compareByRouterID opts path1 path2 of Inl (Err _) \<Rightarrow> Inr None | r \<Rightarrow> r) (\<lambda>b.
     decide b (
     decide (compareByNeighborAddress path1 path2) (Inr True))))))))))))"

subsection \<open>Destinations\<close>

record 'n destination =
  dest_nlri :: 'n
  knownPathList :: "'n path list"
  localIdMap :: bitmap

record 'n Update =
  KnownPathList :: "'n path list"
  OldKnownPathList :: "'n path list"
  Changed :: bool

datatype rib_name = GLOBAL_RIB | CLIENT_RIB addr

definition newDestination :: "'n \<Rightarrow> nat \<Rightarrow> 'n path list \<Rightarrow> (unit, 'n destination) res" where
  "newDestination n mapSize known =
     (let m = NewBitmap mapSize
      in rbind (if mapSize \<noteq> 0 then Flag 0 m else Inr m) (\<lambda>m'.
           Inr \<lparr>dest_nlri = n, knownPathList = known, localIdMap = m'\<rparr>))"

definition snapshot :: "'n destination \<Rightarrow> (unit, 'n destination) res" where
  "snapshot d = newDestination (dest_nlri d) 0 (knownPathList d)"

definition rsFilter :: "rib_name \<Rightarrow> u32 \<Rightarrow> 'n path \<Rightarrow> bool" where
  "rsFilter rib as p \<longleftrightarrow>
     rib \<noteq> GLOBAL_RIB \<and> (CLIENT_RIB (Address (GetSource p)) = rib \<or> as \<in> set (GetAsList p))"

definition GetKnownPathList :: "rib_name \<Rightarrow> u32 \<Rightarrow> 'n destination \<Rightarrow> 'n path list" where
  "GetKnownPathList rib as d = filter (\<lambda>p. \<not> rsFilter rib as p) (knownPathList d)"

fun getBestPath :: "rib_name \<Rightarrow> u32 \<Rightarrow> 'n path list \<Rightarrow> 'n path option" where
  "getBestPath rib as [] = None"
| "getBestPath rib as (p # ps) = (if rsFilter rib as p then getBestPath rib as ps else Some p)"

definition GetBestPath :: "rib_name \<Rightarrow> u32 \<Rightarrow> 'n destination \<Rightarrow> 'n path option" where
  "GetBestPath rib as d =
     (case getBestPath rib as (knownPathList d) of
        None \<Rightarrow> None
      | Some p \<Rightarrow> if IsNexthopInvalid (layer p) then None else Some p)"

definition set_localID :: "u32 \<Rightarrow> 'n path \<Rightarrow> 'n path" where
  "set_localID i = upd_fields (localID_update (\<lambda>_. i))"

text \<open>The loop of \<open>explicitWithdraw\<close> keeps the last match.\<close>

fun last_match :: "'n path \<Rightarrow> nat \<Rightarrow> 'n path list \<Rightarrow> nat option \<Rightarrow> nat option" where
  "last_match w i [] isFound = isFound"
| "last_match w i (p # ps) isFound = last_match w (i + 1) ps (if EqualBySourceAndPathID p w then Some i else isFound)"

definition remove_nth :: "nat \<Rightarrow> 'a list \<Rightarrow> 'a list" where
  "remove_nth i xs = take i xs @ drop (i + 1) xs"

definition explicitWithdraw :: "'n path \<Rightarrow> 'n destination \<Rightarrow> 'n destination \<times> 'n path \<times> 'n path option" where
  "explicitWithdraw withdraw d =
     (case last_match withdraw 0 (knownPathList d) None of
        None \<Rightarrow> (d, withdraw, None)
      | Some i \<Rightarrow>
          let p = knownPathList d ! i
          in (d\<lparr>knownPathList := remove_nth i (knownPathList d)\<rparr>,
              set_localID (localID (layer p)) withdraw, Some p))"

fun first_match :: "'n path \<Rightarrow> nat \<Rightarrow> 'n path list \<Rightarrow> nat option" where
  "first_match newPath i [] = None"
| "first_match newPath i (p # ps) =
     (if noImplicitWithdraw (OriginInfo p) then first_match newPath (i + 1) ps
      else if EqualBySourceAndPathID newPath p then Some i
      else first_match newPath (i + 1) ps)"

definition implicitWithdraw :: "'n path \<Rightarrow> 'n destination \<Rightarrow> 'n destination \<times> 'n path \<times> 'n path option" where
  "implicitWithdraw newPath d =
     (case first_match newPath 0 (knownPathList d) of
        None \<Rightarrow> (d, newPath, None)
      | Some i \<Rightarrow>
          let p = knownPathList d ! i
          in (d\<lparr>knownPathList := remove_nth i (knownPathList d)\<rparr>,
              set_localID (localID (layer p)) newPath, Some p))"

definition insertSort :: "RouteSelectionOptionsConfig \<Rightarrow> 'n path \<Rightarrow> 'n destination \<Rightarrow>
    (unit, 'n destination \<times> nat) res" where
  "insertSort opts newPath d =
     rbind (Search (length (knownPathList d)) (\<lambda>i. better opts newPath (knownPathList d ! i))) (\<lambda>insertIdx.
       Inr (d\<lparr>knownPathList := take insertIdx (knownPathList d) @ newPath # drop insertIdx (knownPathList d)\<rparr>,
            insertIdx))"

definition alloc_id :: "bitmap \<Rightarrow> (unit, nat \<times> bitmap) res" where
  "alloc_id m =
     (case FindandSetZeroBit m of
        Inl (Err _) \<Rightarrow>
          (case FindandSetZeroBit (Expand m) of
             Inl (Err _) \<Rightarrow> Inr (0, Expand m)
           | r \<Rightarrow> r)
      | r \<Rightarrow> r)"

fun alloc_ids :: "'n path list \<Rightarrow> bitmap \<Rightarrow> (unit, 'n path list \<times> bitmap) res" where
  "alloc_ids [] m = Inr ([], m)"
| "alloc_ids (p # ps) m =
     (if localID (layer p) = 0
      then rbind (alloc_id m) (\<lambda>(i, m1).
           rbind (alloc_ids ps m1) (\<lambda>(ps', m2). Inr (set_localID (word_of_nat i) p # ps', m2)))
      else rbind (alloc_ids ps m) (\<lambda>(ps', m2). Inr (p # ps', m2)))"

definition release_id :: "'n path \<Rightarrow> 'n path option \<Rightarrow> bitmap \<Rightarrow> (unit, bitmap) res" where
  "release_id withdraw oldPath m =
     (case oldPath of
        Some p \<Rightarrow> if dropped (layer withdraw) \<and> localID (layer p) \<noteq> 0 then Unflag (unat (localID (layer p))) m else Inr m
      | None \<Rightarrow> Inr m)"

text \<open>\<open>Calculate\<close> returns the destination, the update, the path that was replaced or
  withdrawn, and the new path with the local identifier it was given.\<close>

definition Calculate :: "RouteSelectionOptionsConfig \<Rightarrow> 'n path \<Rightarrow> 'n destination \<Rightarrow>
    (unit, 'n destination \<times> 'n Update \<times> 'n path option \<times> 'n path) res" where
  "Calculate opts newPath d =
     (if IsWithdraw (layer newPath)
      then let (d1, w, oldPath) = explicitWithdraw newPath d
           in rbind (release_id newPath oldPath (localIdMap d1)) (\<lambda>m.
              rbind (alloc_ids (knownPathList d1) m) (\<lambda>(l, m').
                Inr (d1\<lparr>knownPathList := l, localIdMap := m'\<rparr>,
                     \<lparr>KnownPathList = l, OldKnownPathList = knownPathList d, Changed = False\<rparr>, oldPath, w)))
      else let (d1, n, oldPath) = implicitWithdraw newPath d
           in rbind (insertSort opts n d1) (\<lambda>(d2, idx).
              rbind (alloc_ids (knownPathList d2) (localIdMap d2)) (\<lambda>(l, m').
                Inr (d2\<lparr>knownPathList := l, localIdMap := m'\<rparr>,
                     \<lparr>KnownPathList = l, OldKnownPathList = knownPathList d, Changed = False\<rparr>, oldPath, l ! idx))))"

subsection \<open>Multipath and the changes of an update\<close>

definition getMultiBestPath :: "'n path list \<Rightarrow> (unit, 'n path list) res" where
  "getMultiBestPath pathList =
     (if pathList = [] \<or> IsNexthopInvalid (layer (hd pathList)) then Inr []
      else let best = hd pathList
           in rbind (Search (length pathList)
                 (\<lambda>i. Inr (IsNexthopInvalid (layer (pathList ! i)) \<or> Compare (pathList ! i) best \<noteq> 0))) (\<lambda>index.
              Inr (take index pathList)))"

text \<open>\<open>GetMultiBestPathDiff\<close>: the first loop over the new paths, with the indices of the old
  paths that were matched.\<close>

fun index_of :: "('a \<Rightarrow> bool) \<Rightarrow> nat \<Rightarrow> 'a list \<Rightarrow> nat option" where
  "index_of P i [] = None"
| "index_of P i (x # xs) = (if P x then Some i else index_of P (i + 1) xs)"

fun diff_new :: "('n path \<Rightarrow> 'n path \<Rightarrow> bool) \<Rightarrow> 'n path list \<Rightarrow> 'n path list \<Rightarrow> nat list \<Rightarrow>
    'n path list \<Rightarrow> 'n path list \<times> nat list" where
  "diff_new eq oldM [] matched update = (update, matched)"
| "diff_new eq oldM (n # ns) matched update =
     (case index_of (EqualBySourceAndPathID n) 0 oldM of
        None \<Rightarrow> diff_new eq oldM ns matched (update @ [n])
      | Some m \<Rightarrow> diff_new eq oldM ns (m # matched) (if eq n (oldM ! m) then update else update @ [n]))"

definition GetMultiBestPathDiff :: "(bytes \<Rightarrow> u64) \<Rightarrow> ('n \<Rightarrow> bytes) \<Rightarrow> 'n Update \<Rightarrow>
    (unit, 'n path list \<times> 'n path list) res" where
  "GetMultiBestPathDiff farm nlri_bytes u =
     rbind (getMultiBestPath (OldKnownPathList u)) (\<lambda>oldM.
     rbind (getMultiBestPath (KnownPathList u)) (\<lambda>newM.
       let (update, matched) = diff_new (\<lambda>n p. Equal farm nlri_bytes n (Some p)) oldM newM [] []
       in Inr (update, map (\<lambda>i. Clone True (oldM ! i)) (filter (\<lambda>i. i \<notin> set matched) [0..<length oldM]))))"

definition GetWithdrawnPath :: "'n Update \<Rightarrow> 'n path list" where
  "GetWithdrawnPath u =
     (if length (KnownPathList u) = length (OldKnownPathList u) then []
      else map (Clone True) (filter (\<lambda>p. p \<notin> set (KnownPathList u)) (OldKnownPathList u)))"

definition best_change :: "(bytes \<Rightarrow> u64) \<Rightarrow> ('n \<Rightarrow> bytes) \<Rightarrow> rib_name \<Rightarrow> u32 \<Rightarrow> bool \<Rightarrow> 'n Update \<Rightarrow>
    'n path option \<times> 'n path option" where
  "best_change farm nlri_bytes rib as peerDown u =
     (let old = getBestPath rib as (OldKnownPathList u); best = getBestPath rib as (KnownPathList u)
      in if (case best of Some b \<Rightarrow> Equal farm nlri_bytes b old | None \<Rightarrow> False)
         then let b = the best; p = the old
              in if family (layer b) = RF_RTC_UC then (best, old)
                 else if IsNexthopInvalid (layer b) \<noteq> IsNexthopInvalid (layer p)
                 then (if IsNexthopInvalid (layer b) then (Some (Clone True b), old) else (best, old))
                 else (None, old)
         else if (case best of None \<Rightarrow> True | Some b \<Rightarrow> IsNexthopInvalid (layer b))
         then (case old of
                 None \<Rightarrow> (None, None)
               | Some p \<Rightarrow>
                   if IsNexthopInvalid (layer p) then (None, None)
                   else if peerDown
                   then let p' = upd_fields (IsWithdraw_update (\<lambda>_. True)) p in (Some p', Some p')
                   else (Some (Clone True p), old))
         else (best, old))"

definition multi_differs :: "(bytes \<Rightarrow> u64) \<Rightarrow> ('n \<Rightarrow> bytes) \<Rightarrow> 'n path list \<Rightarrow> 'n path list \<Rightarrow> bool" where
  "multi_differs farm nlri_bytes lhs rhs \<longleftrightarrow>
     \<not> list_all2 (\<lambda>l r. Equal farm nlri_bytes l (Some r)) lhs rhs"

text \<open>The third result is \<open>None\<close> for Go's \<open>nil\<close> slice; its elements are optional because the
  code puts \<open>best\<close>, which may be \<open>nil\<close>, into it. With \<open>peerDown\<close> the old best path is marked as
  withdrawn in place, so the multipath lists are read with the mark.\<close>

definition mark_old :: "'n path option \<Rightarrow> 'n path option \<Rightarrow> 'n path list \<Rightarrow> 'n path list" where
  "mark_old before after ps =
     (case (before, after) of
        (Some p, Some p') \<Rightarrow> map (\<lambda>q. if q = p then p' else q) ps
      | _ \<Rightarrow> ps)"

definition GetChanges :: "(bytes \<Rightarrow> u64) \<Rightarrow> ('n \<Rightarrow> bytes) \<Rightarrow> rib_name \<Rightarrow> u32 \<Rightarrow> bool \<Rightarrow> bool \<Rightarrow> 'n Update \<Rightarrow>
    (unit, 'n path option \<times> 'n path option \<times> 'n path option list option) res" where
  "GetChanges farm nlri_bytes rib as peerDown useMultiplePaths u =
     (let (best, old) = best_change farm nlri_bytes rib as peerDown u;
          mark = mark_old (getBestPath rib as (OldKnownPathList u)) old
      in if rib = GLOBAL_RIB \<and> useMultiplePaths
         then rbind (getMultiBestPath (mark (OldKnownPathList u))) (\<lambda>oldM.
              rbind (getMultiBestPath (mark (KnownPathList u))) (\<lambda>newM.
                Inr (best, old,
                  if multi_differs farm nlri_bytes oldM newM
                  then Some (if newM = [] then [best] else map Some newM) else None)))
         else Inr (best, old, None))"

declare search_between.simps [simp del]

subsection \<open>Binary search\<close>

lemma search_between_spec:
  assumes "\<And>h. i \<le> h \<Longrightarrow> h < j \<Longrightarrow> f h = Inr (g h)" and "i \<le> j"
  shows "\<exists>r. search_between f i j = Inr r \<and> i \<le> r \<and> r \<le> j \<and> (i < r \<longrightarrow> \<not> g (r - 1)) \<and> (r < j \<longrightarrow> g r)"
  using assms
proof (induction f i j rule: search_between.induct)
  case (1 f i j)
  show ?case
  proof (cases "i < j")
    case False
    then show ?thesis using 1(4) by (simp add: search_between.simps)
  next
    case True
    define h where "h = (i + j) div 2"
    have h: "i \<le> h" "h < j" using True by (auto simp: h_def)
    have fh: "f h = Inr (g h)" using 1(3) h by simp
    show ?thesis
    proof (cases "g h")
      case True
      then obtain r where "search_between f i h = Inr r" "i \<le> r" "r \<le> h" "i < r \<longrightarrow> \<not> g (r - 1)" "r < h \<longrightarrow> g r"
        using 1(2) [OF \<open>i < j\<close> h_def] 1(3) h by fastforce
      moreover from this have "r < j \<longrightarrow> g r" using True by (cases "r = h") auto
      ultimately show ?thesis
        using True fh h \<open>i < j\<close> by (subst search_between.simps) (auto simp flip: h_def)
    next
      case False
      then obtain r where r: "search_between f (h + 1) j = Inr r" "h + 1 \<le> r" "r \<le> j" "h + 1 < r \<longrightarrow> \<not> g (r - 1)" "r < j \<longrightarrow> g r"
        using 1(1) [OF \<open>i < j\<close> h_def] 1(3) h by fastforce
      then have "\<not> g (r - 1)" using False by (cases "r = h + 1") auto
      then show ?thesis
        using False fh h \<open>i < j\<close> r by (subst search_between.simps) (auto simp flip: h_def)
    qed
  qed
qed

lemma Search_spec:
  assumes "\<And>h. h < n \<Longrightarrow> f h = Inr (g h)"
  shows "\<exists>r \<le> n. Search n f = Inr r \<and> (0 < r \<longrightarrow> \<not> g (r - 1)) \<and> (r < n \<longrightarrow> g r)"
  using search_between_spec [of 0 n f g] assms by (auto simp: Search_def)


subsection \<open>The decision process as an order\<close>

text \<open>
  The reference: a path's rank is the tuple of what RFC 4271 section 9.1 compares, in the
  order of the code, and a smaller rank is a better path. The decision process is this order
  when MEDs are always compared, every path has its ORIGIN, no path comes from a
  confederation peer, and the paths that are not local come from peers with an IPv4 router
  identifier.
\<close>

type_synonym rank = "bool \<times> bool \<times> int \<times> bool \<times> nat \<times> u8 \<times> u32 \<times> bool \<times> int \<times> u32 \<times> addr"

fun router_id :: "addr \<Rightarrow> u32" where
  "router_id (Addr4 w) = w"
| "router_id _ = 0"

definition rank :: "RouteSelectionOptionsConfig \<Rightarrow> 'n path \<Rightarrow> rank" where
  "rank opts p =
     (IsLLGRStale p, IsNexthopInvalid (layer p), - uint (GetLocalPref p), \<not> IsLocal p,
      if IgnoreAsPathLength opts then 0 else GetAsPathLen p,
      case GetOrigin p of Some v \<Rightarrow> v | None \<Rightarrow> 0,
      getMed p, IsIBGP p,
      if \<not> IsIBGP p \<and> \<not> ExternalCompareRouterId opts then UnixNano (timestamp (OriginInfo p)) else 0,
      if \<not> IsLocal p \<and> (IsIBGP p \<or> ExternalCompareRouterId opts) then router_id (ID (GetSource p)) else 0,
      Address (GetSource p))"

definition ordinary :: "'n path \<Rightarrow> bool" where
  "ordinary p \<longleftrightarrow> GetOrigin p \<noteq> None \<and> \<not> Confederation (GetSource p) \<and>
     (if IsLocal p then PeerInfo_Equal (GetSource p) localSource else Is4 (ID (GetSource p)))"




















subsection \<open>What the local identifier does not change\<close>

lemma set_localID_simps [simp]:
  "OriginInfo (set_localID i p) = OriginInfo p" "getPathAttr t (set_localID i p) = getPathAttr t p"
  "localID (layer (set_localID i p)) = i" "remoteID (layer (set_localID i p)) = remoteID (layer p)"
  "IsNexthopInvalid (layer (set_localID i p)) = IsNexthopInvalid (layer p)"
  "IsWithdraw (layer (set_localID i p)) = IsWithdraw (layer p)"
  "set_localID i (set_localID j p) = set_localID i p"
  by (cases p; simp add: set_localID_def)+

lemma GetAsPath_set_localID [simp]: "GetAsPath (set_localID i p) = GetAsPath p"
  by (simp add: GetAsPath_def)

lemma getters_set_localID [simp]:
  "IsLLGRStale (set_localID i p) = IsLLGRStale p" "GetLocalPref (set_localID i p) = GetLocalPref p"
  "IsLocal (set_localID i p) = IsLocal p" "IsIBGP (set_localID i p) = IsIBGP p"
  "GetAsPathLen (set_localID i p) = GetAsPathLen p" "GetOrigin (set_localID i p) = GetOrigin p"
  "GetMed (set_localID i p) = GetMed p" "getMed (set_localID i p) = getMed p"
  by (simp_all add: IsLLGRStale_def GetCommunities_def GetLocalPref_def IsLocal_def GetAsPathLen_def
      GetOrigin_def getMed_def GetMed_def IsIBGP_def)

lemma rank_set_localID [simp]: "rank opts (set_localID i p) = rank opts p"
  by (simp add: rank_def)

lemma ordinary_set_localID [simp]: "ordinary (set_localID i p) = ordinary p"
  by (simp add: ordinary_def)

text \<open>The key by which \<open>Calculate\<close> finds the previous version of a path.\<close>

type_synonym path_key = "u32 \<times> addr \<times> addr \<times> addr \<times> u32"

definition path_key :: "'n path \<Rightarrow> path_key" where
  "path_key p = (AS (GetSource p), ID (GetSource p), LocalID (GetSource p), Address (GetSource p), remoteID (layer p))"

lemma EqualBySourceAndPathID_key: "EqualBySourceAndPathID p q \<longleftrightarrow> path_key p = path_key q"
  by (simp add: EqualBySourceAndPathID_def PeerInfo_Equal_def path_key_def)

lemma path_key_set_localID [simp]: "path_key (set_localID i p) = path_key p"
  by (simp add: path_key_def)

subsection \<open>Bitmaps\<close>

definition flagged :: "bitmap \<Rightarrow> nat \<Rightarrow> bool" where
  "flagged m i \<longleftrightarrow> i div 64 < length m \<and> bit (m ! (i div 64)) (i mod 64)"

lemma index_64: "i div 64 = j div 64 \<Longrightarrow> i mod 64 = j mod 64 \<Longrightarrow> i = (j :: nat)"
  by (metis div_mult_mod_eq)

lemma bit_push_bit_1: "j < 64 \<Longrightarrow> bit (push_bit j 1 :: u64) k \<longleftrightarrow> k = j"
  by (auto simp: bit_simps)

lemma flagged_update:
  assumes "i div 64 < length m" and "\<And>k. k < 64 \<Longrightarrow> bit w k \<longleftrightarrow> (if k = i mod 64 then b else bit (m ! (i div 64)) k)"
  shows "flagged (m[i div 64 := w]) j \<longleftrightarrow> (if j = i then b else flagged m j)"
proof (cases "j div 64 = i div 64")
  case True
  then have "j = i \<longleftrightarrow> j mod 64 = i mod 64" using index_64 by blast
  then show ?thesis using True assms by (simp add: flagged_def)
next
  case False
  then show ?thesis by (auto simp: flagged_def)
qed

lemma Flag_spec:
  assumes "i div 64 < length m"
  shows "\<exists>m'. Flag i m = Inr m' \<and> length m' = length m \<and> (\<forall>j. flagged m' j \<longleftrightarrow> j = i \<or> flagged m j)"
proof -
  have "flagged (m[i div 64 := m ! (i div 64) OR push_bit (i mod 64) 1]) j \<longleftrightarrow> (if j = i then True else flagged m j)" for j
    by (rule flagged_update [OF assms]) (simp add: bit_or_iff bit_push_bit_1 del: push_bit_of_1)
  then show ?thesis using assms by (simp add: Flag_def)
qed

lemma Unflag_spec:
  assumes "i div 64 < length m"
  shows "\<exists>m'. Unflag i m = Inr m' \<and> length m' = length m \<and> (\<forall>j. flagged m' j \<longleftrightarrow> j \<noteq> i \<and> flagged m j)"
proof -
  have "flagged (m[i div 64 := m ! (i div 64) AND NOT (push_bit (i mod 64) 1)]) j \<longleftrightarrow>
      (if j = i then False else flagged m j)" for j
    by (rule flagged_update [OF assms]) (simp add: bit_and_iff bit_not_iff bit_push_bit_1 del: push_bit_of_1)
  then show ?thesis using assms by (simp add: Unflag_def)
qed

lemma and_push_bit_1: "(w AND push_bit j 1 > 0) \<longleftrightarrow> bit w j" if "j < 64" for w :: u64
proof -
  have b: "bit (w AND push_bit j 1) k \<longleftrightarrow> bit w j \<and> k = j" for k
    using that by (auto simp: bit_and_iff bit_push_bit_1 simp del: push_bit_of_1)
  show ?thesis
  proof (cases "bit w j")
    case True
    then have "w AND push_bit j 1 \<noteq> 0" using b [of j] by (metis bit_0_eq bot_apply bot_bool_def)
    then show ?thesis using True by (simp only: word_neq_0_conv)
  next
    case False
    then have "w AND push_bit j 1 = 0" by (intro bit_word_eqI) (simp only: b bit_0_eq bot_apply bot_bool_def simp_thms)
    then show ?thesis using False by simp
  qed
qed

lemma zero_bit_spec:
  assumes "\<forall>j \<in> set js. j < 64"
  shows "case zero_bit w js of
      None \<Rightarrow> \<forall>j \<in> set js. bit w j
    | Some j \<Rightarrow> j \<in> set js \<and> \<not> bit w j \<and> (\<forall>k \<in> set (takeWhile (\<lambda>k. k \<noteq> j) js). bit w k)"
  using assms
proof (induction js)
  case (Cons j js)
  have "NOT w AND push_bit j 1 > 0 \<longleftrightarrow> \<not> bit w j"
    using Cons.prems and_push_bit_1 [of j "NOT w"] by (simp add: bit_not_iff)
  then show ?case using Cons by (auto split: option.splits)
qed simp

lemma zero_bit_word:
  "case zero_bit w [0..<64] of
     None \<Rightarrow> w = 0xFFFFFFFFFFFFFFFF
   | Some j \<Rightarrow> j < 64 \<and> \<not> bit w j \<and> (\<forall>k < j. bit w k)"
proof (cases "zero_bit w [0..<64]")
  case None
  then have "\<forall>j < 64. bit w j" using zero_bit_spec [of "[0..<64]" w] by auto
  then have "w = - 1" by (intro bit_word_eqI) simp
  then show ?thesis using None by simp
next
  case (Some j)
  then have j: "j < 64" "\<not> bit w j" "\<forall>k \<in> set (takeWhile (\<lambda>k. k \<noteq> j) [0..<64]). bit w k"
    using zero_bit_spec [of "[0..<64]" w] by auto
  have "[0..<64] = [0..<j] @ [j..<64]" using j(1) upt_add_eq_append [of 0 j "64 - j"] by simp
  then have "takeWhile (\<lambda>k. k \<noteq> j) [0..<64] = [0..<j]" using j(1) by (simp only: takeWhile_append upt_conv_Cons) simp
  then show ?thesis using Some j by simp
qed

lemma flagged_Cons: "flagged (w # ws) j \<longleftrightarrow> (if j < 64 then bit w j else flagged ws (j - 64))"
proof (cases "j < 64")
  case False
  then have "j = (j - 64) + 64" by simp
  then have "j div 64 = Suc ((j - 64) div 64)" "j mod 64 = (j - 64) mod 64"
    by (metis Suc_eq_plus1 div_add_self2 zero_neq_numeral, metis mod_add_self2)
  then show ?thesis using False by (simp add: flagged_def)
qed (simp add: flagged_def)

lemma bit_full_word: "k < 64 \<Longrightarrow> bit (0xFFFFFFFFFFFFFFFF :: u64) k"
proof -
  have "(0xFFFFFFFFFFFFFFFF :: u64) = - 1" by simp
  then show "k < 64 \<Longrightarrow> ?thesis" by (simp only: bit_minus_1_iff) simp
qed

lemma find_zero_spec:
  "case find_zero n m of
     None \<Rightarrow> \<forall>j < 64 * length m. flagged m j
   | Some r \<Rightarrow> \<exists>j < 64 * length m. r = n * 64 + j \<and> \<not> flagged m j \<and> (\<forall>k < j. flagged m k)"
proof (induction n m rule: find_zero.induct)
  case (2 n w ws)
  show ?case
  proof (cases "zero_bit w [0..<64]")
    case (Some j)
    then have j: "j < 64" "\<not> bit w j" "\<forall>k < j. bit w k" using zero_bit_word [of w] by auto
    then have "w \<noteq> 0xFFFFFFFFFFFFFFFF" by (metis bit_full_word)
    then show ?thesis using Some j by (auto simp: flagged_Cons intro!: exI [of _ j])
  next
    case None
    then have w: "w = 0xFFFFFFFFFFFFFFFF" using zero_bit_word [of w] by simp
    then have b: "bit w k" if "k < 64" for k using that w by (metis bit_full_word)
    show ?thesis
    proof (cases "find_zero (n + 1) ws")
      case None
      then show ?thesis using 2(1) [OF w] w b by (auto simp: flagged_Cons)
    next
      case (Some r)
      then obtain j where j: "j < 64 * length ws" "r = (n + 1) * 64 + j" "\<not> flagged ws j" "\<forall>k < j. flagged ws k"
        using 2(1) [OF w] by auto
      then show ?thesis using Some w b by (auto simp: flagged_Cons intro!: exI [of _ "64 + j"])
    qed
  qed
qed simp

lemma FindandSetZeroBit_spec:
  "case FindandSetZeroBit m of
     Inl f \<Rightarrow> f = Err () \<and> (\<forall>j < 64 * length m. flagged m j)
   | Inr (i, m') \<Rightarrow> i < 64 * length m \<and> \<not> flagged m i \<and> (\<forall>k < i. flagged m k) \<and> length m' = length m \<and>
       (\<forall>j. flagged m' j \<longleftrightarrow> j = i \<or> flagged m j)"
proof (cases "find_zero 0 m")
  case None
  then show ?thesis using find_zero_spec [where n = 0 and m = m] by (simp add: FindandSetZeroBit_def)
next
  case (Some i)
  then have i: "i < 64 * length m" "\<not> flagged m i" "\<forall>k < i. flagged m k" using find_zero_spec [where n = 0 and m = m] by auto
  then obtain m' where "Flag i m = (Inr m' :: (unit, bitmap) res)" "length m' = length m"
      "\<forall>j. flagged m' j \<longleftrightarrow> j = i \<or> flagged m j"
    using Flag_spec [of i m] by (auto simp: less_mult_imp_div_less mult.commute)
  then show ?thesis using Some i by (simp add: FindandSetZeroBit_def)
qed

lemma flagged_Expand [simp]: "flagged (Expand m) j \<longleftrightarrow> flagged m j"
  by (auto simp: flagged_def Expand_def nth_append)

lemma alloc_id_spec:
  "\<exists>i m'. alloc_id m = Inr (i, m') \<and> \<not> flagged m i \<and> i < 64 * (length m + 1) \<and> length m' \<le> length m + 1 \<and>
     (\<forall>j. flagged m' j \<longleftrightarrow> j = i \<or> flagged m j)"
proof (cases "FindandSetZeroBit m")
  case (Inr r)
  then show ?thesis using FindandSetZeroBit_spec [of m] by (cases r) (auto simp: alloc_id_def)
next
  case (Inl f)
  then have f: "f = Err ()" using FindandSetZeroBit_spec [of m] by simp
  have "\<not> flagged (Expand m) (64 * length m)" by (simp only: flagged_Expand) (simp add: flagged_def)
  then have "FindandSetZeroBit (Expand m) \<noteq> Inl g" for g
    using FindandSetZeroBit_spec [of "Expand m"] by (auto simp: Expand_def)
  then obtain i m' where r: "FindandSetZeroBit (Expand m) = Inr (i, m')"
    by (cases "FindandSetZeroBit (Expand m)") auto
  then show ?thesis using Inl f FindandSetZeroBit_spec [of "Expand m"]
    by (auto simp: alloc_id_def) (auto simp: Expand_def)
qed

subsection \<open>The steps of \<open>Calculate\<close>\<close>

lemma remove_nth_filter:
  assumes "distinct (map f xs)" and "j < length xs"
  shows "remove_nth j xs = filter (\<lambda>x. f x \<noteq> f (xs ! j)) xs"
  using assms
proof (induction xs arbitrary: j)
  case (Cons x xs)
  have "filter (\<lambda>y. f y \<noteq> f x) xs = xs" using Cons.prems(1) by (intro filter_True ballI) (auto simp: image_iff)
  then show ?case using Cons by (cases j) (auto simp: remove_nth_def)
qed simp

lemma index_shift:
  assumes "\<exists>j < length xs. k = i + 1 + j \<and> f (xs ! j) = c"
  shows "\<exists>j < length (x # xs). k = i + j \<and> f ((x # xs) ! j) = c"
proof -
  from assms obtain j where "j < length xs" "k = i + 1 + j" "f (xs ! j) = c" by blast
  then show ?thesis by (intro exI [of _ "Suc j"]) simp
qed

lemma first_match_spec:
  assumes "\<forall>p \<in> set ps. \<not> noImplicitWithdraw (OriginInfo p)"
  shows "case first_match n i ps of
      None \<Rightarrow> path_key n \<notin> path_key ` set ps
    | Some k \<Rightarrow> \<exists>j < length ps. k = i + j \<and> path_key (ps ! j) = path_key n"
  using assms
proof (induction n i ps rule: first_match.induct)
  case (2 n i p ps)
  show ?case
  proof (cases "path_key n = path_key p")
    case False
    then have ne: "\<not> EqualBySourceAndPathID n p" by (simp add: EqualBySourceAndPathID_key)
    have ni: "\<not> noImplicitWithdraw (OriginInfo p)" using 2(3) by simp
    have "case first_match n (i + 1) ps of None \<Rightarrow> path_key n \<notin> path_key ` set ps
        | Some k \<Rightarrow> \<exists>j < length ps. k = i + 1 + j \<and> path_key (ps ! j) = path_key n"
      using 2(2) [OF ni ne] 2(3) by simp
    then show ?thesis using False ne ni by (simp only: first_match.simps if_False split: option.splits) (auto dest: index_shift)
  qed (use 2(3) in \<open>auto simp: EqualBySourceAndPathID_key\<close>)
qed simp

lemma last_match_spec:
  "case last_match w i ps acc of
     None \<Rightarrow> acc = None \<and> path_key w \<notin> path_key ` set ps
   | Some k \<Rightarrow> acc = Some k \<and> path_key w \<notin> path_key ` set ps \<or>
       (\<exists>j < length ps. k = i + j \<and> path_key (ps ! j) = path_key w)"
proof (induction w i ps acc rule: last_match.induct)
  case (2 w i p ps acc)
  have step: "\<exists>j < length (p # ps). k = i + j \<and> path_key ((p # ps) ! j) = path_key w"
    if "\<exists>j < length ps. k = i + 1 + j \<and> path_key (ps ! j) = path_key w" for k
    using that by (rule index_shift)
  show ?case
  proof (cases "path_key p = path_key w")
    case True
    then have "\<exists>j < length (p # ps). i = i + j \<and> path_key ((p # ps) ! j) = path_key w" by auto
    then show ?thesis using 2 True step by (auto simp: EqualBySourceAndPathID_key split: option.splits)
  next
    case False
    then show ?thesis using 2 step by (auto simp: EqualBySourceAndPathID_key split: option.splits)
  qed
qed (simp split: option.splits)

definition keyed :: "path_key \<Rightarrow> 'n path list \<Rightarrow> 'n path option" where
  "keyed k ps = find (\<lambda>p. path_key p = k) ps"

lemma keyed_nth:
  assumes "distinct (map path_key ps)" and "j < length ps"
  shows "keyed (path_key (ps ! j)) ps = Some (ps ! j)"
  using assms by (induction ps arbitrary: j) (auto simp: keyed_def nth_Cons split: nat.splits)

lemma keyed_None: "keyed k ps = None \<longleftrightarrow> k \<notin> path_key ` set ps"
  by (auto simp: keyed_def find_None_iff)

lemma not_keyed: "k \<notin> path_key ` set ps \<Longrightarrow> keyed k ps = None"
  by (simp only: keyed_None not_False_eq_True)

text \<open>Both withdrawals remove the path with the key, and hand its local identifier on.\<close>

definition take_over :: "'n path \<Rightarrow> 'n destination \<Rightarrow> 'n destination \<times> 'n path \<times> 'n path option" where
  "take_over n d =
     (d\<lparr>knownPathList := filter (\<lambda>p. path_key p \<noteq> path_key n) (knownPathList d)\<rparr>,
      case keyed (path_key n) (knownPathList d) of None \<Rightarrow> n | Some p \<Rightarrow> set_localID (localID (layer p)) n,
      keyed (path_key n) (knownPathList d))"

lemma filter_other_keys: "k \<notin> path_key ` set ps \<Longrightarrow> filter (\<lambda>p. path_key p \<noteq> k) ps = ps"
  by (auto intro: filter_True)

lemma implicitWithdraw_take_over:
  assumes "distinct (map path_key (knownPathList d))"
    and "\<forall>p \<in> set (knownPathList d). \<not> noImplicitWithdraw (OriginInfo p)"
  shows "implicitWithdraw n d = take_over n d"
proof (cases "first_match n 0 (knownPathList d)")
  case None
  then have "path_key n \<notin> path_key ` set (knownPathList d)" using first_match_spec [OF assms(2), where n = n and i = 0] by simp
  then show ?thesis using None by (simp add: implicitWithdraw_def take_over_def not_keyed filter_other_keys)
next
  case (Some j)
  then have j: "j < length (knownPathList d)" "path_key n = path_key (knownPathList d ! j)"
    using first_match_spec [OF assms(2), where n = n and i = 0] by auto
  then show ?thesis using Some keyed_nth [OF assms(1) j(1)] remove_nth_filter [OF assms(1) j(1)]
    by (simp add: implicitWithdraw_def take_over_def Let_def)
qed

lemma explicitWithdraw_take_over:
  assumes "distinct (map path_key (knownPathList d))"
  shows "explicitWithdraw w d = take_over w d"
proof (cases "last_match w 0 (knownPathList d) None")
  case None
  then have "path_key w \<notin> path_key ` set (knownPathList d)" using last_match_spec [where w = w and i = 0 and ps = "knownPathList d" and acc = None] by simp
  then show ?thesis using None by (simp add: explicitWithdraw_def take_over_def not_keyed filter_other_keys)
next
  case (Some j)
  then have j: "j < length (knownPathList d)" "path_key w = path_key (knownPathList d ! j)"
    using last_match_spec [where w = w and i = 0 and ps = "knownPathList d" and acc = None] by auto
  then show ?thesis using Some keyed_nth [OF assms(1) j(1)] remove_nth_filter [OF assms(1) j(1)]
    by (simp add: explicitWithdraw_def take_over_def Let_def)
qed

lemma get_u32_valid: "IsValid a \<Longrightarrow> \<exists>i. get_u32 (AsSlice a) 0 = Inr i"
  by (cases a) (simp_all add: byte_simps)

definition has_router_id :: "'n path \<Rightarrow> bool" where
  "has_router_id p \<longleftrightarrow> IsLocal p \<or> IsValid (ID (GetSource p))"

lemma decide_Inr: "(b = None \<Longrightarrow> \<exists>x. r = Inr x) \<Longrightarrow> \<exists>x. decide b r = Inr x"
  by (auto simp: decide_def split: option.splits side.splits)

lemma router_id_total:
  assumes "has_router_id p" and "has_router_id q" and "compareByLocalOrigin p q = None"
  shows "\<exists>b. (case compareByRouterID opts p q of Inl (Err _) \<Rightarrow> Inr None | r \<Rightarrow> r) = (Inr b :: (unit, side option) res)"
proof (cases "IsLocal p \<and> IsLocal q")
  case False
  then have "\<not> IsLocal p" "\<not> IsLocal q"
    using assms(3) by (auto simp: compareByLocalOrigin_def PeerInfo_Equal_def IsLocal_def split: if_splits)
  then obtain i j where "get_u32 (AsSlice (ID (GetSource p))) 0 = (Inr i :: (unit, u32) res)"
      "get_u32 (AsSlice (ID (GetSource q))) 0 = (Inr j :: (unit, u32) res)"
    using assms(1,2) get_u32_valid by (metis has_router_id_def)
  then show ?thesis by (simp add: compareByRouterID_def)
qed (simp add: compareByRouterID_def)

lemma better_total:
  assumes "has_router_id p" and "has_router_id q"
  shows "\<exists>b. better opts p q = Inr b"
proof -
  have "\<exists>b. rbind (case compareByRouterID opts p q of Inl (Err _) \<Rightarrow> Inr None | r \<Rightarrow> r) (\<lambda>b.
     decide b (decide (compareByNeighborAddress p q) (Inr True))) = Inr b" if loc: "compareByLocalOrigin p q = None"
  proof -
    obtain b where b: "(case compareByRouterID opts p q of Inl (Err _) \<Rightarrow> Inr None | r \<Rightarrow> r) = (Inr b :: (unit, side option) res)"
      using router_id_total [OF assms loc] by blast
    have "\<exists>x. decide b (decide (compareByNeighborAddress p q) (Inr True)) = Inr x"
      by (intro decide_Inr) blast
    then show ?thesis unfolding b by simp
  qed
  then show ?thesis unfolding better_def by (intro decide_Inr)
qed

lemma insertSort_returns:
  assumes "has_router_id n" and "\<forall>p \<in> set (knownPathList d). has_router_id p"
  shows "\<exists>r \<le> length (knownPathList d).
    insertSort opts n d = Inr (d\<lparr>knownPathList := take r (knownPathList d) @ n # drop r (knownPathList d)\<rparr>, r)"
proof -
  define g where "g h = (better opts n (knownPathList d ! h) = Inr True)" for h
  have "better opts n (knownPathList d ! h) = Inr (g h)" if "h < length (knownPathList d)" for h
    using better_total [of n "knownPathList d ! h" opts] that assms by (auto simp: g_def)
  then show ?thesis using Search_spec [of "length (knownPathList d)" "\<lambda>h. better opts n (knownPathList d ! h)" g]
    by (auto simp: insertSort_def)
qed


subsection \<open>The invariant of a destination\<close>

text \<open>
  The known paths have a router identifier and yield to a new path of their source, no two have the
  same source and path identifier, and their local identifiers are distinct, not zero and marked
  as used. This holds under every selection option. The order of the paths is a second invariant,
  for ordinary paths and where MEDs are always compared.
\<close>

definition ids_wf :: "'n path list \<Rightarrow> bitmap \<Rightarrow> bool" where
  "ids_wf ps m \<longleftrightarrow> flagged m 0 \<and> distinct (map (\<lambda>p. localID (layer p)) ps) \<and>
     (\<forall>p \<in> set ps. localID (layer p) \<noteq> 0 \<and> flagged m (unat (localID (layer p))))"

definition dest_wf :: "'n destination \<Rightarrow> bool" where
  "dest_wf d \<longleftrightarrow>
     (\<forall>p \<in> set (knownPathList d). has_router_id p \<and> \<not> noImplicitWithdraw (OriginInfo p)) \<and>
     distinct (map path_key (knownPathList d)) \<and> ids_wf (knownPathList d) (localIdMap d)"

definition dest_sorted :: "RouteSelectionOptionsConfig \<Rightarrow> 'n destination \<Rightarrow> bool" where
  "dest_sorted opts d \<longleftrightarrow> (\<forall>p \<in> set (knownPathList d). ordinary p) \<and> sorted (map (rank opts) (knownPathList d))"

text \<open>What is asked of an input: an announcement comes from a peer with a router identifier (or is
  local), it replaces the path it is a new version of, and a local identifier it already carries is
  free for it: the path it replaces hands its own on, or the identifier is marked as used and
  no other known path has it.\<close>

definition id_free :: "'n path \<Rightarrow> 'n destination \<Rightarrow> bool" where
  "id_free n d \<longleftrightarrow> localID (layer n) = 0 \<or> path_key n \<in> path_key ` set (knownPathList d) \<or>
     flagged (localIdMap d) (unat (localID (layer n))) \<and> localID (layer n) \<notin> (\<lambda>p. localID (layer p)) ` set (knownPathList d)"

definition input_ok :: "'n path \<Rightarrow> 'n destination \<Rightarrow> bool" where
  "input_ok n d \<longleftrightarrow> IsWithdraw (layer n) \<or> has_router_id n \<and> \<not> noImplicitWithdraw (OriginInfo n) \<and> id_free n d"

text \<open>The specification: a destination is a finite map from the source and path identifier to
  the path, up to its local identifier.\<close>

definition known_paths :: "'n path list \<Rightarrow> path_key \<Rightarrow> 'n path option" where
  "known_paths ps = map_of (map (\<lambda>p. (path_key p, set_localID 0 p)) ps)"

lemma known_paths_filter: "known_paths (filter (\<lambda>p. path_key p \<noteq> k) ps) = (known_paths ps)(k := None)"
  by (induction ps) (auto simp: known_paths_def)

lemma known_paths_insert:
  assumes "path_key n \<notin> path_key ` set (ps @ qs)"
  shows "known_paths (ps @ n # qs) = (known_paths (ps @ qs))(path_key n \<mapsto> set_localID 0 n)"
  using assms by (induction ps) (auto simp: known_paths_def)

lemma rbind_Inr [simp]: "rbind m Inr = m"
  by (cases m) simp_all

lemma alloc_ids_used:
  assumes "\<forall>p \<in> set ps. localID (layer p) \<noteq> 0"
  shows "alloc_ids (ps @ qs) m = rbind (alloc_ids qs m) (\<lambda>(qs', m'). Inr (ps @ qs', m'))"
  using assms by (induction ps) (simp_all add: rbind_assoc case_prod_unfold rbind_Inr)

lemma alloc_ids_nop: "\<forall>p \<in> set ps. localID (layer p) \<noteq> 0 \<Longrightarrow> alloc_ids ps m = Inr (ps, m)"
  using alloc_ids_used [of ps "[]" m] by simp

lemma distinct_insert: "distinct (map f (ps @ n # qs)) \<longleftrightarrow> f n \<notin> f ` set (ps @ qs) \<and> distinct (map f (ps @ qs))"
  by auto

lemma ids_wf_insert_iff:
  "ids_wf (ps @ n # qs) m \<longleftrightarrow> ids_wf (ps @ qs) m \<and> localID (layer n) \<noteq> 0 \<and> flagged m (unat (localID (layer n))) \<and>
     localID (layer n) \<notin> (\<lambda>p. localID (layer p)) ` set (ps @ qs)"
  unfolding ids_wf_def distinct_insert by auto

lemma ids_wf_mono: "ids_wf ps m \<Longrightarrow> (\<And>j. flagged m j \<Longrightarrow> flagged m' j) \<Longrightarrow> ids_wf ps m'"
  by (simp add: ids_wf_def)

lemma ids_wf_insert:
  assumes "ids_wf (ps @ qs) m" and "64 * (length m + 1) \<le> 2 ^ 32"
    and "localID (layer n) = 0 \<or> localID (layer n) \<notin> (\<lambda>p. localID (layer p)) ` set (ps @ qs) \<and>
      flagged m (unat (localID (layer n)))"
  shows "\<exists>i m'. alloc_ids (ps @ n # qs) m = Inr (ps @ set_localID i n # qs, m') \<and>
    ids_wf (ps @ set_localID i n # qs) m' \<and> length m' \<le> length m + 1"
proof -
  have ps: "\<forall>p \<in> set ps. localID (layer p) \<noteq> 0" and qs: "\<forall>p \<in> set qs. localID (layer p) \<noteq> 0"
    using assms(1) by (auto simp: ids_wf_def)
  show ?thesis
  proof (cases "localID (layer n) = 0")
    case False
    moreover have "set_localID (localID (layer n)) n = n" by (cases n) (simp_all add: set_localID_def)
    moreover have "alloc_ids (ps @ n # qs) m = Inr (ps @ n # qs, m)"
      using False ps qs by (intro alloc_ids_nop) auto
    ultimately show ?thesis
      using assms(1,3) by (intro exI [of _ "localID (layer n)"] exI [of _ m]) (simp add: ids_wf_insert_iff)
  next
    case True
    obtain i m' where i: "alloc_id m = Inr (i, m')" "\<not> flagged m i" "i < 64 * (length m + 1)" "length m' \<le> length m + 1"
        "\<forall>j. flagged m' j \<longleftrightarrow> j = i \<or> flagged m j"
      using alloc_id_spec [of m] by blast
    then have u: "unat (word_of_nat i :: u32) = i" using assms(2) by (simp add: unat_of_nat take_bit_nat_eq_self)
    have "i \<noteq> 0" using i(2) assms(1) by (auto simp: ids_wf_def)
    then have "(word_of_nat i :: u32) \<noteq> 0" using u by (metis unat_0)
    moreover have "word_of_nat i \<notin> (\<lambda>p. localID (layer p)) ` set (ps @ qs)"
    proof
      assume "word_of_nat i \<in> (\<lambda>p. localID (layer p)) ` set (ps @ qs)"
      then obtain p where "p \<in> set (ps @ qs)" "localID (layer p) = word_of_nat i" by (metis imageE)
      moreover have "flagged m (unat (localID (layer p)))" using \<open>p \<in> _\<close> assms(1) by (simp only: ids_wf_def)
      ultimately show False using i(2) u by simp
    qed
    moreover have "ids_wf (ps @ qs) m'" by (rule ids_wf_mono [OF assms(1)]) (use i(5) in blast)
    moreover have "flagged m' (unat (word_of_nat i :: u32))" using i(5) u by simp
    ultimately have "ids_wf (ps @ set_localID (word_of_nat i) n # qs) m'"
      unfolding ids_wf_insert_iff set_localID_simps by blast
    moreover have "alloc_ids (ps @ n # qs) m = Inr (ps @ set_localID (word_of_nat i) n # qs, m')"
      using True i(1) ps alloc_ids_nop [OF qs] by (simp add: alloc_ids_used)
    ultimately show ?thesis using i(4) by blast
  qed
qed

lemma ids_wf_remove:
  assumes "ids_wf ps m"
  shows "ids_wf (filter P ps) m"
  using assms by (auto simp: ids_wf_def distinct_map_filter)

lemma ids_wf_unflag:
  assumes "ids_wf ps m" and "p \<in> set ps" and "\<not> P p"
  shows "\<exists>m'. Unflag (unat (localID (layer p))) m = Inr m' \<and> ids_wf (filter P ps) m' \<and> length m' = length m"
proof -
  have "unat (localID (layer p)) div 64 < length m" using assms(1,2) by (auto simp: ids_wf_def flagged_def)
  then obtain m' where m': "Unflag (unat (localID (layer p))) m = (Inr m' :: ('b, bitmap) res)" "length m' = length m"
      "\<forall>j. flagged m' j \<longleftrightarrow> j \<noteq> unat (localID (layer p)) \<and> flagged m j" using Unflag_spec by blast
  have "localID (layer q) \<noteq> localID (layer p)" if "q \<in> set (filter P ps)" for q
    using that assms by (auto simp: ids_wf_def distinct_map inj_on_def)
  moreover have "unat (localID (layer p)) \<noteq> 0" using assms(1,2) by (auto simp: ids_wf_def unat_eq_zero)
  ultimately have "ids_wf (filter P ps) m'"
    using ids_wf_remove [OF assms(1), of P] m'(3) by (simp add: ids_wf_def word_unat_eq_iff)
  then show ?thesis using m' by blast
qed

lemma keyed_SomeD: "keyed k ps = Some p \<Longrightarrow> p \<in> set ps \<and> path_key p = k"
  by (auto simp: keyed_def find_Some_iff)

lemma Calculate_withdraw:
  assumes "dest_wf d" and "IsWithdraw (layer n)"
  shows "\<exists>d' u n'. Calculate opts n d = Inr (d', u, keyed (path_key n) (knownPathList d), n') \<and> dest_wf d' \<and>
    length (localIdMap d') \<le> length (localIdMap d) + 1 \<and>
    knownPathList d' = filter (\<lambda>p. path_key p \<noteq> path_key n) (knownPathList d)"
proof -
  let ?P = "\<lambda>p. path_key p \<noteq> path_key n"
  let ?old = "keyed (path_key n) (knownPathList d)"
  have wf: "distinct (map path_key (knownPathList d))" "ids_wf (knownPathList d) (localIdMap d)"
    using assms(1) by (auto simp: dest_wf_def)
  have "\<exists>m. release_id n ?old (localIdMap d) = Inr m \<and>
      ids_wf (filter ?P (knownPathList d)) m \<and> length m = length (localIdMap d)"
  proof (cases ?old)
    case (Some p)
    then have "p \<in> set (knownPathList d)" "\<not> ?P p" using keyed_SomeD by blast+
    then show ?thesis
      using ids_wf_unflag [OF wf(2), of p ?P] ids_wf_remove [OF wf(2), of ?P] Some
      by (auto simp: release_id_def)
  qed (use ids_wf_remove [OF wf(2), of ?P] in \<open>simp add: release_id_def\<close>)
  then obtain m where m: "release_id n ?old (localIdMap d) = Inr m"
      "ids_wf (filter ?P (knownPathList d)) m" "length m = length (localIdMap d)" by blast
  have "alloc_ids (filter ?P (knownPathList d)) m = Inr (filter ?P (knownPathList d), m)"
    using m(2) by (intro alloc_ids_nop) (auto simp: ids_wf_def)
  then show ?thesis
    using assms m wf(1) by (simp add: Calculate_def explicitWithdraw_take_over take_over_def)
      (auto simp: dest_wf_def distinct_map_filter)
qed

text \<open>The place of the new path is where \<open>insertSort\<close> puts it among the others, with the local
  identifier it takes over.\<close>

definition taking_over :: "'n path \<Rightarrow> 'n destination \<Rightarrow> 'n path" where
  "taking_over n d = (case keyed (path_key n) (knownPathList d) of None \<Rightarrow> n | Some p \<Rightarrow> set_localID (localID (layer p)) n)"

lemma taking_over_simps [simp]:
  "path_key (taking_over n d) = path_key n" "OriginInfo (taking_over n d) = OriginInfo n"
  "set_localID i (taking_over n d) = set_localID i n" "rank opts (taking_over n d) = rank opts n"
  "ordinary (taking_over n d) = ordinary n" "has_router_id (taking_over n d) = has_router_id n"
  by (auto simp: taking_over_def has_router_id_def IsLocal_def split: option.splits)

lemma taking_over_id:
  assumes "dest_wf d" and "id_free n d" and "set qs = {p \<in> set (knownPathList d). path_key p \<noteq> path_key n}"
  shows "localID (layer (taking_over n d)) = 0 \<or>
    localID (layer (taking_over n d)) \<notin> (\<lambda>p. localID (layer p)) ` set qs \<and>
      flagged (localIdMap d) (unat (localID (layer (taking_over n d))))"
proof (cases "keyed (path_key n) (knownPathList d)")
  case (Some p)
  then have p: "p \<in> set (knownPathList d)" "path_key p = path_key n" using keyed_SomeD by blast+
  have ids: "inj_on (\<lambda>p. localID (layer p)) (set (knownPathList d))" "flagged (localIdMap d) (unat (localID (layer p)))"
    using assms(1) p(1) by (auto simp: dest_wf_def ids_wf_def distinct_map)
  have "localID (layer p) \<noteq> localID (layer q)" if "q \<in> set qs" for q
  proof -
    have "q \<in> set (knownPathList d)" "q \<noteq> p" using that assms(3) p(2) by auto
    then show ?thesis using inj_onD [OF ids(1), of p q] p(1) by auto
  qed
  then show ?thesis using Some ids(2) by (auto simp: taking_over_def)
next
  case None
  then have "path_key n \<notin> path_key ` set (knownPathList d)" by (simp add: keyed_None)
  then show ?thesis using assms(2,3) None by (auto simp: taking_over_def id_free_def)
qed

lemma Calculate_announce:
  assumes "dest_wf d" and "\<not> IsWithdraw (layer n)" and "input_ok n d" and "64 * (length (localIdMap d) + 1) \<le> 2 ^ 32"
  defines "ps \<equiv> filter (\<lambda>p. path_key p \<noteq> path_key n) (knownPathList d)"
  shows "\<exists>d' u n' r i. Calculate opts n d = Inr (d', u, keyed (path_key n) (knownPathList d), n') \<and> dest_wf d' \<and>
    length (localIdMap d') \<le> length (localIdMap d) + 1 \<and> r \<le> length ps \<and>
    insertSort opts (taking_over n d) (d\<lparr>knownPathList := ps\<rparr>) = Inr (d\<lparr>knownPathList := take r ps @ taking_over n d # drop r ps\<rparr>, r) \<and>
    knownPathList d' = take r ps @ set_localID i n # drop r ps"
proof -
  have wf: "distinct (map path_key (knownPathList d))" "ids_wf (knownPathList d) (localIdMap d)"
      "\<forall>p \<in> set (knownPathList d). has_router_id p \<and> \<not> noImplicitWithdraw (OriginInfo p)"
    using assms(1) by (auto simp: dest_wf_def)
  have n: "has_router_id n" "\<not> noImplicitWithdraw (OriginInfo n)" "id_free n d" using assms(2,3) by (auto simp: input_ok_def)
  obtain r where r: "r \<le> length ps"
      "insertSort opts (taking_over n d) (d\<lparr>knownPathList := ps\<rparr>) = Inr (d\<lparr>knownPathList := take r ps @ taking_over n d # drop r ps\<rparr>, r)"
    using insertSort_returns [of "taking_over n d" "d\<lparr>knownPathList := ps\<rparr>" opts] wf(3) n(1) by (auto simp: ps_def)
  have parts: "set (take r ps @ drop r ps) = {p \<in> set (knownPathList d). path_key p \<noteq> path_key n}" by (auto simp: ps_def)
  obtain i m' where a: "alloc_ids (take r ps @ taking_over n d # drop r ps) (localIdMap d) = Inr (take r ps @ set_localID i n # drop r ps, m')"
      "ids_wf (take r ps @ set_localID i n # drop r ps) m'" "length m' \<le> length (localIdMap d) + 1"
    using ids_wf_insert [OF _ assms(4) taking_over_id [OF assms(1) n(3) parts]] ids_wf_remove [OF wf(2)]
    by (auto simp: ps_def)
  define d' where "d' = d\<lparr>knownPathList := take r ps @ set_localID i n # drop r ps, localIdMap := m'\<rparr>"
  have "Calculate opts n d = Inr (d', \<lparr>KnownPathList = take r ps @ set_localID i n # drop r ps,
      OldKnownPathList = knownPathList d, Changed = False\<rparr>,
      keyed (path_key n) (knownPathList d), (take r ps @ set_localID i n # drop r ps) ! r)"
    using assms(2) wf(1,3) r(2) a(1)
    by (simp add: Calculate_def implicitWithdraw_take_over take_over_def d'_def flip: ps_def taking_over_def)
  moreover have "dest_wf d'"
  proof -
    have "distinct (map path_key (take r ps @ set_localID i n # drop r ps))"
      unfolding distinct_insert using wf(1) by (auto simp: ps_def distinct_map_filter)
    moreover have "set (take r ps @ set_localID i n # drop r ps) = insert (set_localID i n) (set ps)"
      by (metis append_take_drop_id list.simps(15) set_append Un_insert_right)
    moreover have "set ps \<subseteq> set (knownPathList d)" by (auto simp: ps_def)
    moreover have "has_router_id (set_localID i n)" using n(1) by (simp add: has_router_id_def IsLocal_def)
    ultimately show ?thesis using a(2) wf(3) n(2) by (auto simp: dest_wf_def d'_def)
  qed
  ultimately show ?thesis using a(3) r by (auto simp: d'_def)
qed

lemma known_paths_announce:
  assumes "ps = filter (\<lambda>p. path_key p \<noteq> path_key n) qs"
  shows "known_paths (take r ps @ set_localID i n # drop r ps) = (known_paths qs)(path_key n \<mapsto> set_localID 0 n)"
proof -
  have "path_key (set_localID i n) \<notin> path_key ` set (take r ps @ drop r ps)" by (auto simp: assms)
  from known_paths_insert [OF this] show ?thesis
    using known_paths_filter [of "path_key n" qs] by (simp flip: assms)
qed

subsection \<open>Histories of a destination\<close>

definition calc_step :: "RouteSelectionOptionsConfig \<Rightarrow> 'n path \<Rightarrow> 'n destination \<Rightarrow> (unit, 'n destination) res" where
  "calc_step opts n d = rbind (Calculate opts n d) (\<lambda>(d', _). Inr d')"

text \<open>The specification of one step: an announcement binds its key, a withdrawal unbinds it.\<close>

definition calc_spec :: "'n path \<Rightarrow> (path_key \<Rightarrow> 'n path option) \<Rightarrow> path_key \<Rightarrow> 'n path option" where
  "calc_spec n view = view(path_key n := if IsWithdraw (layer n) then None else Some (set_localID 0 n))"

definition calc_room :: "'n destination \<Rightarrow> nat" where
  "calc_room d = 2 ^ 26 - 1 - length (localIdMap d)"

lemma Calculate_step:
  assumes "input_ok n d" and "dest_wf d" and "length (localIdMap d) < 2 ^ 26 - 1"
  shows "\<exists>d' u n'. Calculate opts n d = Inr (d', u, keyed (path_key n) (knownPathList d), n') \<and> dest_wf d' \<and>
    length (localIdMap d') \<le> length (localIdMap d) + 1 \<and>
    known_paths (knownPathList d') = calc_spec n (known_paths (knownPathList d))"
proof (cases "IsWithdraw (layer n)")
  case True
  then show ?thesis using Calculate_withdraw [OF assms(2) True, of opts] by (auto simp: calc_spec_def known_paths_filter)
next
  case False
  have "64 * (length (localIdMap d) + 1) \<le> 2 ^ 32" using assms(3) by simp
  then show ?thesis
    using Calculate_announce [OF assms(2) False assms(1), of opts] False known_paths_announce [OF refl]
    by (auto simp: calc_spec_def)
qed


interpretation dest_store: refined_store "calc_step opts" input_ok dest_wf
  "\<lambda>d. known_paths (knownPathList d)" calc_spec calc_room for opts
proof
  fix n :: "'a path" and d :: "'a destination"
  assume "input_ok n d" and "dest_wf d" and "0 < calc_room d"
  then show "\<exists>d'. calc_step opts n d = Inr d' \<and> dest_wf d' \<and>
      known_paths (knownPathList d') = calc_spec n (known_paths (knownPathList d)) \<and> calc_room d \<le> calc_room d' + 1"
    using Calculate_step [of n d opts] by (auto simp: calc_step_def calc_room_def)
qed



lemma newDestination_wf:
  "\<exists>d. newDestination n 64 [] = Inr d \<and> dest_wf d \<and> dest_sorted opts d \<and> knownPathList d = [] \<and> length (localIdMap d) = 1"
proof -
  obtain m where "Flag 0 [0] = (Inr m :: (unit, bitmap) res)" "length m = 1" "flagged m 0"
    using Flag_spec [of 0 "[0]", where 'a = unit] by auto
  then show ?thesis by (simp add: newDestination_def NewBitmap_def dest_wf_def dest_sorted_def ids_wf_def)
qed

lemma dest_history:
  assumes "newDestination n 64 [] = Inr d0" and "run_ok (calc_step opts) input_ok ps d0" and "length ps \<le> 67108862"
  shows "\<exists>d. run_steps (calc_step opts) ps d0 = Inr d \<and> dest_wf d \<and> known_paths (knownPathList d) = fold calc_spec ps Map.empty"
proof -
  have d: "dest_wf d0" "knownPathList d0 = []" "length (localIdMap d0) = 1"
    using newDestination_wf [of n opts] assms(1) by auto
  then have "length ps \<le> calc_room d0" using assms(3) by (simp add: calc_room_def)
  from dest_store.run_refines [OF assms(2) d(1) this] show ?thesis using d(2) by (simp add: known_paths_def)
qed



text \<open>C1: Under every selection option, a destination that receives announcements and
  withdrawals, at most 67108862 of them, holds exactly the last path announced, and not withdrawn
  since, by each source with each path identifier. An announcement has to come from a peer with a router
  identifier or be local, must not be exempt from implicit withdrawal, and a local
  identifier it carries must be free (\<open>input_ok\<close>).\<close>

theorem Calculate_refines:
  assumes "newDestination n 64 [] = Inr d0" and "run_ok (calc_step opts) input_ok ps d0" and "length ps \<le> 67108862"
  shows "\<exists>d. run_steps (calc_step opts) ps d0 = Inr d \<and> distinct (map path_key (knownPathList d)) \<and>
    known_paths (knownPathList d) = fold calc_spec ps Map.empty"
  using dest_history [OF assms] by (auto simp: dest_wf_def)


text \<open>C16: Under every selection option the local path identifiers of a destination are never zero, no
  two known paths share one, and each is marked in the identifier map, after any history of at most
  67108862 inputs as in \<open>Calculate_refines\<close>: an announcement may carry an identifier of its own if it
  replaces a known path or if the identifier is marked and no known path has it.\<close>

theorem Calculate_local_ids:
  assumes "newDestination n 64 [] = Inr d0" and "run_ok (calc_step opts) input_ok ps d0" and "length ps \<le> 67108862"
  shows "\<exists>d. run_steps (calc_step opts) ps d0 = Inr d \<and>
    distinct (map (\<lambda>p. localID (layer p)) (knownPathList d)) \<and>
    (\<forall>p \<in> set (knownPathList d). localID (layer p) \<noteq> 0 \<and>
      GetFlag (unat (localID (layer p))) (localIdMap d) = (Inr True :: (unit, bool) res))"
proof -
  have "GetFlag i m = (Inr True :: (unit, bool) res)" if "flagged m i" for i m
    using that and_push_bit_1 [of "i mod 64" "m ! (i div 64)"] by (simp add: GetFlag_def flagged_def)
  then show ?thesis using dest_history [OF assms] by (auto simp: dest_wf_def ids_wf_def)
qed

subsection \<open>Examples\<close>

text \<open>A route learned at a time from a neighbour in an AS, whose number is its router identifier and
  its address, with a MED and communities.\<close>

definition ex_route :: "u32 \<Rightarrow> u32 \<Rightarrow> int \<Rightarrow> u32 \<Rightarrow> u32 list \<Rightarrow> bool \<Rightarrow> unit path" where
  "ex_route a n t m cs invalid =
     Root \<lparr>nlri = (), source = ex_source\<lparr>AS := a, ID := Addr4 n, Address := Addr4 n\<rparr>, timestamp = t, stale = False,
        noImplicitWithdraw = False, isFromExternal = False, eor = False\<rparr>
       \<lparr>pathAttrs = [NewPathAttributeOrigin 0, NewPathAttributeAsPath [NewAs4PathParam 2 [a]],
          NewPathAttributeMultiExitDisc m, NewPathAttributeCommunities cs], dels = [], attrsHash = 0,
        nh = Some \<lparr>global_nh = Addr4 n, linkLocal = AddrNone\<rparr>, localID = 0, remoteID = 0, family = RF_IPv4_UC,
        rejected = False, dropped = False, IsNexthopInvalid = invalid, IsWithdraw = False\<rparr>"

definition ex_opts :: "bool \<Rightarrow> RouteSelectionOptionsConfig" where
  "ex_opts med = \<lparr>AlwaysCompareMed = med, IgnoreAsPathLength = False, ExternalCompareRouterId = False,
     AdvertiseInactiveRoutes = False, EnableAigp = False, IgnoreNextHopIgpMetric = False,
     DisableBestPathSelection = False\<rparr>"

definition best_after :: "RouteSelectionOptionsConfig \<Rightarrow> unit path list \<Rightarrow> unit path option" where
  "best_after opts ps =
     (case rbind (newDestination () 64 []) (run_steps (calc_step opts) ps) of
        Inr d \<Rightarrow> GetBestPath GLOBAL_RIB 0 d | Inl _ \<Rightarrow> None)"

text \<open>Three routes; a new version of the first, which still carries its local identifier; its
  withdrawal, after which the identifier stays marked; its return with that identifier; and the
  withdrawal of the second, which releases the identifier.\<close>

definition ex_history :: "unit path list" where
  "ex_history =
     [ex_route 1 1 5 7 [] False, ex_route 2 2 3 6 [] False, ex_route 3 3 9 5 [] False, set_localID 1 (ex_route 1 1 6 5 [] False),
      Clone True (ex_route 1 1 6 5 [] False), set_localID 1 (ex_route 1 1 7 5 [] False),
      upd_fields (dropped_update (\<lambda>_. True)) (Clone True (ex_route 2 2 3 6 [] False))]"

definition ex_dest :: "unit destination" where
  "ex_dest = \<lparr>dest_nlri = (), knownPathList = [], localIdMap = [1]\<rparr>"

lemma ex_dest_new: "newDestination () 64 [] = Inr ex_dest" by code_simp


lemma ex_default_ok: "run_ok (calc_step (ex_opts False)) input_ok ex_history ex_dest" by code_simp


lemma ex_history_length: "length ex_history \<le> 67108862" by (simp add: ex_history_def)


theorem Calculate_refines_witness:
  "\<exists>d. run_steps (calc_step (ex_opts False)) ex_history ex_dest = Inr d \<and>
     known_paths (knownPathList d) =
       [path_key (ex_route 3 3 9 5 [] False) \<mapsto> ex_route 3 3 9 5 [] False, path_key (ex_route 1 1 7 5 [] False) \<mapsto> ex_route 1 1 7 5 [] False]"
proof -
  have k: "path_key (ex_route a n t m cs b) = (a, Addr4 n, LocalID ex_source, Addr4 n, 0)"
      "set_localID 0 (ex_route a n t m cs b) = ex_route a n t m cs b" "\<not> IsWithdraw (layer (ex_route a n t m cs b))" for a n t m cs b
    by (simp_all add: ex_route_def path_key_def set_localID_def)
  have c: "path_key (Clone True p) = path_key p" "IsWithdraw (layer (Clone True p))"
      "path_key (upd_fields (dropped_update g) p) = path_key p" "IsWithdraw (layer (upd_fields (dropped_update g) p)) = IsWithdraw (layer p)"
      "set_localID i (set_localID j p) = set_localID i p" "IsWithdraw (layer (set_localID i p)) = IsWithdraw (layer p)" for p :: "unit path" and g i j
    by (cases p; simp add: path_key_def Clone_def set_localID_def)+
  have "fold calc_spec ex_history Map.empty =
      [path_key (ex_route 3 3 9 5 [] False) \<mapsto> ex_route 3 3 9 5 [] False, path_key (ex_route 1 1 7 5 [] False) \<mapsto> ex_route 1 1 7 5 [] False]"
    by (auto simp: ex_history_def calc_spec_def k c fun_eq_iff)
  then show ?thesis using Calculate_refines [OF ex_dest_new ex_default_ok ex_history_length] by auto
qed


theorem Calculate_local_ids_witness:
  "\<exists>d. run_steps (calc_step (ex_opts False)) ex_history ex_dest = Inr d \<and> length (knownPathList d) = 2 \<and>
     distinct (map (\<lambda>p. localID (layer p)) (knownPathList d))"
proof -
  have "case run_steps (calc_step (ex_opts False)) ex_history ex_dest of Inr d \<Rightarrow> length (knownPathList d) = 2 | Inl _ \<Rightarrow> False" by code_simp
  then show ?thesis using Calculate_local_ids [OF ex_dest_new ex_default_ok ex_history_length] by auto
qed

subsection \<open>Where the decision process is not an order\<close>

text \<open>With the default options three eBGP paths can each beat the next: two paths of the same
  neighbour AS are compared by their MED, and each of them with a path of another AS by its age.
  The best path then depends on the order of arrival.\<close>

lemma MED_cycle:
  "let p = ex_route 1 11 1 20 [] False; q = ex_route 2 2 2 0 [] False; r = ex_route 1 12 3 10 [] False
   in ordinary p \<and> ordinary q \<and> ordinary r \<and> \<not> AlwaysCompareMed (ex_opts False) \<and>
      better (ex_opts False) p q = Inr True \<and> better (ex_opts False) q p = Inr False \<and>
      better (ex_opts False) q r = Inr True \<and> better (ex_opts False) r q = Inr False \<and>
      better (ex_opts False) r p = Inr True \<and> better (ex_opts False) p r = Inr False \<and>
      map_option (\<lambda>b. timestamp (OriginInfo b)) (best_after (ex_opts False) [p, q, r]) = Some 1 \<and>
      map_option (\<lambda>b. timestamp (OriginInfo b)) (best_after (ex_opts False) [r, q, p]) = Some 2"
  by code_simp

lemma better_stale:
  assumes "\<not> IsLLGRStale p" and "IsLLGRStale q"
  shows "better opts q p = Inr False"
  using assms by (simp add: better_def compareByLLGRStaleCommunity_def decide_def)

text \<open>C17: A path whose next hop is unreachable hides a usable one: the decision process asks for
  the LLGR_STALE community before it asks for a reachable next hop, so a stale path that could be
  used is placed behind a fresh path that cannot, and the destination then has neither a best path
  nor a multipath.\<close>

theorem unreachable_hides_stale:
  assumes "knownPathList d = [p]" and "\<not> IsLLGRStale p" and "IsNexthopInvalid (layer p)" and "localID (layer p) \<noteq> 0"
    and "IsLLGRStale q" and "\<not> IsNexthopInvalid (layer q)" and "\<not> IsWithdraw (layer q)" and "path_key q \<noteq> path_key p"
  shows "\<exists>d' u q'. Calculate opts q d = Inr (d', u, None, q') \<and> q' \<in> set (knownPathList d') \<and>
    \<not> IsNexthopInvalid (layer q') \<and> GetBestPath GLOBAL_RIB as d' = None \<and> getMultiBestPath (knownPathList d') = Inr []"
proof -
  have imp: "implicitWithdraw q d = (d, q, None)"
    using assms(1,8) by (simp add: implicitWithdraw_def EqualBySourceAndPathID_key)
  have "Search (Suc 0) (\<lambda>i. better opts q ([p] ! i)) = Inr 1"
    using better_stale [OF assms(2,5)] by (simp add: Search_def search_between.simps)
  then have ins: "insertSort opts q d = Inr (d\<lparr>knownPathList := [p, q]\<rparr>, 1)"
    using assms(1) by (simp add: insertSort_def)
  obtain q' m' where "alloc_ids [p, q] (localIdMap d) = Inr ([p, q'], m')" "IsNexthopInvalid (layer q') = IsNexthopInvalid (layer q)"
    using alloc_id_spec [of "localIdMap d"] assms(4) by (cases "localID (layer q) = 0") auto
  then show ?thesis using assms imp ins
    by (simp add: Calculate_def GetBestPath_def getMultiBestPath_def rsFilter_def)
qed

theorem unreachable_hides_stale_witness:
  "map_option (\<lambda>b. timestamp (OriginInfo b))
     (best_after (ex_opts False) [ex_route 1 1 1 0 [] True, ex_route 2 2 2 0 [0xffff0006] False]) = None \<and>
   (\<exists>d'. rbind (Calculate (ex_opts False) (ex_route 2 2 2 0 [0xffff0006] False)
       \<lparr>dest_nlri = (), knownPathList = [set_localID 1 (ex_route 1 1 1 0 [] True)], localIdMap = [3]\<rparr>) (\<lambda>(d, _). Inr d) = Inr d' \<and>
     GetBestPath GLOBAL_RIB 0 d' = None)"
proof
  have "\<not> IsLLGRStale (ex_route 1 1 1 0 [] True)" "IsLLGRStale (ex_route 2 2 2 0 [0xffff0006] False)"
      "IsNexthopInvalid (layer (ex_route 1 1 1 0 [] True))" "\<not> IsNexthopInvalid (layer (ex_route 2 2 2 0 [0xffff0006] False))"
      "\<not> IsWithdraw (layer (ex_route 2 2 2 0 [0xffff0006] False))"
      "path_key (ex_route 2 2 2 0 [0xffff0006] False) \<noteq> path_key (ex_route 1 1 1 0 [] True)" by code_simp+
  then show "\<exists>d'. rbind (Calculate (ex_opts False) (ex_route 2 2 2 0 [0xffff0006] False)
       \<lparr>dest_nlri = (), knownPathList = [set_localID 1 (ex_route 1 1 1 0 [] True)], localIdMap = [3]\<rparr>) (\<lambda>(d, _). Inr d) = Inr d' \<and>
     GetBestPath GLOBAL_RIB 0 d' = None"
    using unreachable_hides_stale [of "\<lparr>dest_nlri = (), knownPathList = [set_localID 1 (ex_route 1 1 1 0 [] True)], localIdMap = [3]\<rparr>"
        "set_localID 1 (ex_route 1 1 1 0 [] True)" "ex_route 2 2 2 0 [0xffff0006] False" "ex_opts False" 0]
    by auto
qed code_simp

subsection \<open>No panic, no loss\<close>

text \<open>C18: Under every selection option and for every list, sorted or not, the insertion of a path
  returns, and the list afterwards holds the path and what it held before. It cannot fail when
  the peers of the paths have a router identifier; a local path needs none.\<close>

theorem insertSort_total:
  assumes "has_router_id n" and "\<forall>p \<in> set (knownPathList d). has_router_id p"
  shows "\<exists>r \<le> length (knownPathList d).
    insertSort opts n d = Inr (d\<lparr>knownPathList := take r (knownPathList d) @ n # drop r (knownPathList d)\<rparr>, r)"
  by (rule insertSort_returns [OF assms])

theorem insertSort_total_witness:
  "\<exists>d. insertSort (ex_opts False) (ex_route 1 1 1 0 [] False)
      \<lparr>dest_nlri = (), knownPathList = [ex_route 2 2 2 0 [] False, Clone False (ex_route 1 1 7 0 [] False)], localIdMap = []\<rparr> = Inr d"
proof -
  have "has_router_id (ex_route 1 1 1 0 [] False)" "has_router_id (ex_route 2 2 2 0 [] False)"
      "has_router_id (Clone False (ex_route 1 1 7 0 [] False))" by code_simp+
  then show ?thesis
    using insertSort_total [of "ex_route 1 1 1 0 [] False"
        "\<lparr>dest_nlri = (), knownPathList = [ex_route 2 2 2 0 [] False, Clone False (ex_route 1 1 7 0 [] False)], localIdMap = []\<rparr>"
        "ex_opts False"] by auto
qed

text \<open>\<open>FindandSetZeroBit\<close> returns the lowest bit that is clear and sets that bit only; it
  fails exactly when every bit is set.\<close>

theorem FindandSetZeroBit_lowest:
  "case FindandSetZeroBit m of
     Inl f \<Rightarrow> f = Err () \<and> (\<forall>j < 64 * length m. flagged m j)
   | Inr (i, m') \<Rightarrow> i < 64 * length m \<and> \<not> flagged m i \<and> (\<forall>k < i. flagged m k) \<and> length m' = length m \<and>
       (\<forall>j. flagged m' j \<longleftrightarrow> j = i \<or> flagged m j)"
  by (rule FindandSetZeroBit_spec)

theorem FindandSetZeroBit_lowest_witness:
  "FindandSetZeroBit [0xFFFFFFFFFFFFFFFF, 5] = Inr (65, [0xFFFFFFFFFFFFFFFF, 7]) \<and>
   flagged [0xFFFFFFFFFFFFFFFF, 5] 64 \<and> \<not> flagged [0xFFFFFFFFFFFFFFFF, 5] 65"
proof
  show eq: "FindandSetZeroBit [0xFFFFFFFFFFFFFFFF, 5] = Inr (65, [0xFFFFFFFFFFFFFFFF, 7])" by code_simp
  show "flagged [0xFFFFFFFFFFFFFFFF, 5] 64 \<and> \<not> flagged [0xFFFFFFFFFFFFFFFF, 5] 65"
    using FindandSetZeroBit_lowest [of "[0xFFFFFFFFFFFFFFFF, 5]"] unfolding eq by simp
qed

subsection \<open>Multipath\<close>









subsection \<open>The changes of an update\<close>

lemma getMultiBestPath_total: "\<exists>l. getMultiBestPath ps = Inr l"
proof (cases "ps = [] \<or> IsNexthopInvalid (layer (hd ps))")
  case False
  obtain r where "Search (length ps) (\<lambda>i. Inr (IsNexthopInvalid (layer (ps ! i)) \<or> Compare (ps ! i) (hd ps) \<noteq> 0)) =
      (Inr r :: (unit, nat) res)"
    using Search_spec [of "length ps" "\<lambda>i. Inr (IsNexthopInvalid (layer (ps ! i)) \<or> Compare (ps ! i) (hd ps) \<noteq> 0)"
        "\<lambda>i. IsNexthopInvalid (layer (ps ! i)) \<or> Compare (ps ! i) (hd ps) \<noteq> 0"] by blast
  then show ?thesis using False by (simp add: getMultiBestPath_def)
qed (auto simp: getMultiBestPath_def)

definition usable :: "rib_name \<Rightarrow> u32 \<Rightarrow> 'n path list \<Rightarrow> 'n path option" where
  "usable rib as ps = (case getBestPath rib as ps of
     None \<Rightarrow> None | Some p \<Rightarrow> if IsNexthopInvalid (layer p) then None else Some p)"

lemma getBestPath_in: "getBestPath rib as ps = Some p \<Longrightarrow> p \<in> set ps"
  by (induction ps) (auto split: if_splits)

lemma IsWithdraw_mark [simp]:
  "IsWithdraw (layer (upd_fields (IsWithdraw_update (\<lambda>_. True)) p))" "OriginInfo (upd_fields g p) = OriginInfo p"
  by (cases p; simp)+

definition change_spec :: "(bytes \<Rightarrow> u64) \<Rightarrow> ('n \<Rightarrow> bytes) \<Rightarrow> rib_name \<Rightarrow> u32 \<Rightarrow> 'n Update \<Rightarrow> 'n path option \<Rightarrow> bool" where
  "change_spec farm enc rib as u best \<longleftrightarrow>
     (case (usable rib as (OldKnownPathList u), usable rib as (KnownPathList u)) of
        (None, None) \<Rightarrow> best = None
      | (Some p, None) \<Rightarrow> \<exists>w. best = Some w \<and> IsWithdraw (layer w) \<and>
          OriginInfo w \<in> OriginInfo ` (set (OldKnownPathList u) \<union> set (KnownPathList u))
      | (before, Some q) \<Rightarrow> best = (if before \<noteq> None \<and> Equal farm enc q before then None else Some q))"

lemma best_change_spec:
  assumes "\<forall>p \<in> set (KnownPathList u). family (layer p) \<noteq> RF_RTC_UC"
  shows "change_spec farm enc rib as u (fst (best_change farm enc rib as peerDown u))"
proof (cases "getBestPath rib as (KnownPathList u)")
  case None
  then show ?thesis using getBestPath_in [of rib as "OldKnownPathList u"]
    by (auto simp: change_spec_def best_change_def usable_def Let_def split: option.splits)
next
  case (Some b)
  then have b: "b \<in> set (KnownPathList u)" "family (layer b) \<noteq> RF_RTC_UC" using getBestPath_in assms by blast+
  show ?thesis
  proof (cases "getBestPath rib as (OldKnownPathList u)")
    case None
    then show ?thesis using Some by (simp add: change_spec_def best_change_def usable_def Let_def Equal_def)
  next
    case o: (Some p)
    then have "p \<in> set (OldKnownPathList u)" by (rule getBestPath_in)
    then show ?thesis using Some o b
      by (simp add: change_spec_def best_change_def usable_def Let_def)
  qed
qed

text \<open>C5: What \<open>GetChanges\<close> reports as the new best path follows from the usable best paths before
  and after, as \<open>change_spec\<close> says: nothing when there is none in either, a withdrawal when the last one is gone, and the
  new best path when there is one, unless it equals the usable one before. (Route target
  membership routes are reported again even when equal.)\<close>

theorem GetChanges_best:
  assumes "\<forall>p \<in> set (KnownPathList u). family (layer p) \<noteq> RF_RTC_UC"
  shows "\<exists>best old multi. GetChanges farm enc rib as peerDown useMultiplePaths u = Inr (best, old, multi) \<and>
    change_spec farm enc rib as u best"
proof -
  obtain best old where bo: "best_change farm enc rib as peerDown u = (best, old)" by fastforce
  have "\<exists>multi. GetChanges farm enc rib as peerDown useMultiplePaths u = Inr (best, old, multi)"
  proof -
    define mark where "mark = mark_old (getBestPath rib as (OldKnownPathList u)) old"
    obtain l1 l2 where "getMultiBestPath (mark (OldKnownPathList u)) = Inr l1" "getMultiBestPath (mark (KnownPathList u)) = Inr l2"
      using getMultiBestPath_total by meson
    then show ?thesis by (auto simp: GetChanges_def bo mark_def Let_def)
  qed
  then show ?thesis using best_change_spec [OF assms, of farm enc rib as peerDown] bo by auto
qed

theorem GetChanges_best_witness:
  "\<exists>best old multi. GetChanges (\<lambda>_. 0) (\<lambda>_. []) GLOBAL_RIB 0 False True
      \<lparr>KnownPathList = [ex_route 1 1 1 0 [] True], OldKnownPathList = [ex_route 2 2 2 0 [] False], Changed = False\<rparr> =
        Inr (best, old, multi) \<and> (\<exists>w. best = Some w \<and> IsWithdraw (layer w))"
proof -
  have "family (layer (ex_route 1 1 1 0 [] True)) \<noteq> RF_RTC_UC"
      "usable GLOBAL_RIB 0 [ex_route 1 1 1 0 [] True] = None"
      "usable GLOBAL_RIB 0 [ex_route 2 2 2 0 [] False] = Some (ex_route 2 2 2 0 [] False)"
    by code_simp+
  then show ?thesis
    using GetChanges_best [of "\<lparr>KnownPathList = [ex_route 1 1 1 0 [] True], OldKnownPathList = [ex_route 2 2 2 0 [] False],
        Changed = False\<rparr>" "\<lambda>_. 0" "\<lambda>_. []" GLOBAL_RIB 0 False True] by (auto simp: change_spec_def)
qed

end
