(* ===== verification/Rib_Table.thy ===== *)
theory Rib_Table
  imports Destination "HOL-Library.AList" "HOL-Library.Multiset"
begin

section \<open>Routing tables: \<open>internal/pkg/table/table.go\<close>\<close>

text \<open>
  A table holds the destinations of one address family in shards, each a map from a hash of the NLRI
  to the destinations with that hash.

  \<^item> An NLRI is what the table sees of it: the prefix of an IP NLRI, the serialised route
    distinguisher and the prefix of a VPN NLRI, the serialised form (if it has one) and the
    printed form of a link state NLRI, and the printed form of any other.
  \<^item> The hash is the package \<open>fnv1a\<close>: its three operations are the record \<open>hash_ops\<close>, an argument
    of the definitions. Nothing is assumed of it.
  \<^item> The map of a shard is a list of its entries, each key once; Go fixes no order for a loop
    over it. Shards that are not allocated yet are \<open>None\<close>. A pointer to a destination is
    the number of its shard, its key and its place in the list under that key.
  \<^item> Locks are left out: an operation holds the lock of its shard throughout.
  \<^item> The index of EVPN MAC addresses and the index by route target are left out; \<open>validatePath\<close>,
    which only writes to the log, too.
\<close>

subsection \<open>Keys\<close>

datatype table_nlri =
    IPPrefix prefix
  | VPNPrefix bytes prefix
  | LsPrefix "bytes option" bytes
  | PrintedNLRI bytes

record hash_ops =
  Init64 :: u64
  AddBytes64 :: "u64 \<Rightarrow> bytes \<Rightarrow> u64"
  AddString64 :: "u64 \<Rightarrow> bytes \<Rightarrow> u64"

fun tableKey :: "hash_ops \<Rightarrow> table_nlri \<Rightarrow> u64" where
  "tableKey H (IPPrefix p) =
     AddBytes64 H (AddBytes64 H (Init64 H) (AsSlice (prefix_addr p))) [word_of_nat (prefix_bits p)]"
| "tableKey H (VPNPrefix rd p) =
     AddBytes64 H (AddBytes64 H (AddBytes64 H (Init64 H) rd) (AsSlice (prefix_addr p))) [word_of_nat (prefix_bits p)]"
| "tableKey H (LsPrefix ser str) =
     (case ser of Some b \<Rightarrow> AddBytes64 H (Init64 H) b | None \<Rightarrow> AddString64 H (Init64 H) str)"
| "tableKey H (PrintedNLRI str) = AddString64 H (Init64 H) str"

definition copy_into :: "nat \<Rightarrow> bytes \<Rightarrow> bytes \<Rightarrow> bytes" where
  "copy_into i src b = take i b @ take (length b - i) src @ drop (i + length (take (length b - i) src)) b"

fun addrPrefixOnlySerialize :: "table_nlri \<Rightarrow> bytes" where
  "addrPrefixOnlySerialize (IPPrefix p) =
     (let byteLen = BitLen (prefix_addr p) div 8
      in (copy_into 0 (AsSlice (prefix_addr p)) (replicate (byteLen + 1) 0))[byteLen := word_of_nat (prefix_bits p)])"
| "addrPrefixOnlySerialize (VPNPrefix rd p) =
     (let byteLen = BitLen (prefix_addr p) div 8
      in (copy_into 8 (AsSlice (prefix_addr p)) (copy_into 0 rd (replicate (byteLen + 9) 0)))
           [8 + byteLen := word_of_nat (prefix_bits p)])"
| "addrPrefixOnlySerialize (LsPrefix ser str) = str"
| "addrPrefixOnlySerialize (PrintedNLRI str) = str"

fun bytes_Compare :: "bytes \<Rightarrow> bytes \<Rightarrow> int" where
  "bytes_Compare [] [] = 0"
| "bytes_Compare [] (y # ys) = -1"
| "bytes_Compare (x # xs) [] = 1"
| "bytes_Compare (x # xs) (y # ys) = (if x < y then -1 else if y < x then 1 else bytes_Compare xs ys)"

definition AddrPrefixOnlyCompare :: "table_nlri \<Rightarrow> table_nlri \<Rightarrow> int" where
  "AddrPrefixOnlyCompare a b = bytes_Compare (addrPrefixOnlySerialize a) (addrPrefixOnlySerialize b)"

subsection \<open>Shards\<close>

type_synonym rib_path = "table_nlri path"
type_synonym dest = "table_nlri destination"
type_synonym shard = "(u64 \<times> dest list) list"

record Destinations =
  shards :: "shard list option"
  mask :: u32

definition newDestinations :: "u32 \<Rightarrow> (unit, Destinations) res" where
  "newDestinations shardCount =
     (if shardCount = 0 \<or> and shardCount (shardCount - 1) \<noteq> 0 then Inl Panic
      else Inr \<lparr>shards = None, mask = shardCount - 1\<rparr>)"

definition loadShards :: "Destinations \<Rightarrow> shard list" where
  "loadShards D = (case shards D of None \<Rightarrow> [] | Some ss \<Rightarrow> ss)"

definition shard_index :: "hash_ops \<Rightarrow> table_nlri \<Rightarrow> Destinations \<Rightarrow> nat" where
  "shard_index H n D = unat (and (ucast (tableKey H n)) (mask D))"

definition getShard :: "hash_ops \<Rightarrow> table_nlri \<Rightarrow> Destinations \<Rightarrow> shard option" where
  "getShard H n D = (case shards D of None \<Rightarrow> None | Some ss \<Rightarrow> Some (ss ! shard_index H n D))"

definition alloc_shards :: "Destinations \<Rightarrow> Destinations" where
  "alloc_shards D =
     (case shards D of None \<Rightarrow> D\<lparr>shards := Some (replicate (unat (mask D + 1)) [])\<rparr> | Some _ \<Rightarrow> D)"

definition getShardForInsert :: "hash_ops \<Rightarrow> table_nlri \<Rightarrow> Destinations \<Rightarrow> Destinations \<times> nat" where
  "getShardForInsert H n D = (let D1 = alloc_shards D in (D1, shard_index H n D1))"

definition shard_put :: "nat \<Rightarrow> u64 \<Rightarrow> dest list \<Rightarrow> Destinations \<Rightarrow> Destinations" where
  "shard_put i key dests D = D\<lparr>shards := Some ((loadShards D)[i := AList.update key dests (loadShards D ! i)])\<rparr>"

definition shard_delete :: "nat \<Rightarrow> u64 \<Rightarrow> Destinations \<Rightarrow> Destinations" where
  "shard_delete i key D = D\<lparr>shards := Some ((loadShards D)[i := AList.delete key (loadShards D ! i)])\<rparr>"

definition shard_get :: "nat \<Rightarrow> u64 \<Rightarrow> Destinations \<Rightarrow> dest list option" where
  "shard_get i key D = map_of (loadShards D ! i) key"

definition same_nlri :: "table_nlri \<Rightarrow> dest \<Rightarrow> bool" where
  "same_nlri n d \<longleftrightarrow> AddrPrefixOnlyCompare (dest_nlri d) n = 0"

definition all_destinations :: "Destinations \<Rightarrow> dest list" where
  "all_destinations D = concat (map (\<lambda>sh. concat (map snd sh)) (loadShards D))"

definition Destinations_Get :: "hash_ops \<Rightarrow> table_nlri \<Rightarrow> Destinations \<Rightarrow> (unit, dest option) res" where
  "Destinations_Get H n D =
     (case getShard H n D of
        None \<Rightarrow> Inr None
      | Some sh \<Rightarrow>
          (case map_of sh (tableKey H n) of
             None \<Rightarrow> Inr None
           | Some dests \<Rightarrow>
               (case find (same_nlri n) dests of
                  None \<Rightarrow> Inr None
                | Some d \<Rightarrow> rbind (snapshot d) (\<lambda>s. Inr (Some s)))))"

definition InsertUpdate :: "hash_ops \<Rightarrow> dest \<Rightarrow> Destinations \<Rightarrow> Destinations \<times> bool" where
  "InsertUpdate H d D =
     (let n = dest_nlri d; (D1, i) = getShardForInsert H n D; key = tableKey H n;
          isnew = (shard_get i key D1 = None);
          D2 = (if isnew then shard_put i key [] D1 else D1);
          dests = the (shard_get i key D2)
      in case index_of (same_nlri n) 0 dests of
           Some j \<Rightarrow> (shard_put i key (dests[j := d]) D2, False)
         | None \<Rightarrow> (shard_put i key (dests @ [d]) D2, \<not> isnew))"

subsection \<open>The table\<close>

record Table =
  Table_Family :: u32
  destinations :: Destinations

fun set_destinations :: "hash_ops \<Rightarrow> dest list \<Rightarrow> Destinations \<Rightarrow> Destinations" where
  "set_destinations H [] D = D"
| "set_destinations H (d # ds) D = set_destinations H ds (fst (InsertUpdate H d D))"

definition newTable :: "hash_ops \<Rightarrow> u32 \<Rightarrow> u32 \<Rightarrow> dest list \<Rightarrow> (unit, Table) res" where
  "newTable H rf shardCount dsts =
     rbind (newDestinations shardCount) (\<lambda>D. Inr \<lparr>Table_Family = rf, destinations = set_destinations H dsts D\<rparr>)"

definition NewTable :: "hash_ops \<Rightarrow> u32 \<Rightarrow> dest list \<Rightarrow> (unit, Table) res" where
  "NewTable H rf dsts = newTable H rf 2048 dsts"

definition newSingleShardTable :: "hash_ops \<Rightarrow> u32 \<Rightarrow> (unit, Table) res" where
  "newSingleShardTable H rf = newTable H rf 1 []"

text \<open>The place of the destination in the list under its key.\<close>

definition getOrCreateDest :: "hash_ops \<Rightarrow> nat \<Rightarrow> table_nlri \<Rightarrow> nat \<Rightarrow> Destinations \<Rightarrow> (unit, Destinations \<times> nat) res" where
  "getOrCreateDest H i n mapSize D =
     (let key = tableKey H n in
      case (case shard_get i key D of Some dests \<Rightarrow> index_of (same_nlri n) 0 dests | None \<Rightarrow> None) of
        Some j \<Rightarrow> Inr (D, j)
      | None \<Rightarrow>
          rbind (newDestination n mapSize []) (\<lambda>d.
            let D1 = (if shard_get i key D = None then shard_put i key [] D else D);
                dests = the (shard_get i key D1)
            in Inr (shard_put i key (dests @ [d]) D1, length dests)))"

definition dest_at :: "nat \<Rightarrow> u64 \<Rightarrow> nat \<Rightarrow> Destinations \<Rightarrow> dest" where
  "dest_at i key j D = the (shard_get i key D) ! j"

definition set_dest :: "nat \<Rightarrow> u64 \<Rightarrow> nat \<Rightarrow> dest \<Rightarrow> Destinations \<Rightarrow> Destinations" where
  "set_dest i key j d D = shard_put i key ((the (shard_get i key D))[j := d]) D"

definition OnesCount64 :: "u64 \<Rightarrow> nat" where
  "OnesCount64 w = length (filter (bit w) [0..<64])"

definition deleteDest :: "hash_ops \<Rightarrow> nat \<Rightarrow> dest \<Rightarrow> Destinations \<Rightarrow> Destinations" where
  "deleteDest H i d D =
     (let count = sum_list (map OnesCount64 (localIdMap d)); key = tableKey H (dest_nlri d)
      in if localIdMap d \<noteq> [] \<and> count \<noteq> 1 then D
         else case shard_get i key D of
           None \<Rightarrow> D
         | Some dests \<Rightarrow>
             (case index_of (same_nlri (dest_nlri d)) 0 dests of
                None \<Rightarrow> D
              | Some j \<Rightarrow>
                  let rest = remove_nth j dests; D1 = shard_put i key rest D
                  in if rest = [] then shard_delete i key D1 else D1))"

definition table_update :: "hash_ops \<Rightarrow> (bytes \<Rightarrow> u64) \<Rightarrow> (table_nlri \<Rightarrow> bytes) \<Rightarrow> RouteSelectionOptionsConfig \<Rightarrow>
    rib_path \<Rightarrow> Table \<Rightarrow> (unit, Table \<times> table_nlri Update option) res" where
  "table_update H farm nlri_bytes opts newPath t =
     (let n = nlri (OriginInfo newPath); (D1, i) = getShardForInsert H n (destinations t); key = tableKey H n
      in rbind (getOrCreateDest H i n 64 D1) (\<lambda>(D2, j).
         rbind (Calculate opts newPath (dest_at i key j D2)) (\<lambda>(dst, u, oldPath, newPath').
           let D3 = set_dest i key j dst D2;
               D4 = (if knownPathList dst = [] then deleteDest H i dst D3 else D3)
           in Inr (t\<lparr>destinations := D4\<rparr>,
                if IsWithdraw (layer newPath) \<and> oldPath = None then None
                else Some (u\<lparr>Changed := IsWithdraw (layer newPath) \<or> oldPath = None \<or> \<not> Equal farm nlri_bytes newPath' oldPath\<rparr>)))))"

fun snapshots :: "dest list \<Rightarrow> (unit, dest list) res" where
  "snapshots [] = Inr []"
| "snapshots (d # ds) = rbind (snapshot d) (\<lambda>s. rbind (snapshots ds) (\<lambda>ss. Inr (s # ss)))"

definition GetDestinations :: "Table \<Rightarrow> (unit, dest list) res" where
  "GetDestinations t = snapshots (all_destinations (destinations t))"

definition Bests :: "rib_name \<Rightarrow> u32 \<Rightarrow> Table \<Rightarrow> rib_path list" where
  "Bests rib as t = List.map_filter (GetBestPath rib as) (all_destinations (destinations t))"

definition Table_GetKnownPathList :: "rib_name \<Rightarrow> u32 \<Rightarrow> Table \<Rightarrow> rib_path list" where
  "Table_GetKnownPathList rib as t = concat (map (GetKnownPathList rib as) (all_destinations (destinations t)))"

definition GetDestination :: "hash_ops \<Rightarrow> table_nlri \<Rightarrow> Table \<Rightarrow> (unit, dest option) res" where
  "GetDestination H n t = Destinations_Get H n (destinations t)"

subsection \<open>Lookup\<close>

lemma bytes_Compare_0: "bytes_Compare xs ys = 0 \<longleftrightarrow> xs = ys"
  by (induction xs ys rule: bytes_Compare.induct) auto

text \<open>What tells two destinations of a table apart: the hash and the serialised prefix.\<close>

abbreviation (input) ser :: "dest \<Rightarrow> bytes" where
  "ser d \<equiv> addrPrefixOnlySerialize (dest_nlri d)"

definition nlri_id :: "hash_ops \<Rightarrow> table_nlri \<Rightarrow> u64 \<times> bytes" where
  "nlri_id H n = (tableKey H n, addrPrefixOnlySerialize n)"

lemma same_nlri_ser: "same_nlri n d \<longleftrightarrow> ser d = addrPrefixOnlySerialize n"
  by (simp add: same_nlri_def AddrPrefixOnlyCompare_def bytes_Compare_0)

definition by_ser :: "bytes \<Rightarrow> dest list \<Rightarrow> dest option" where
  "by_ser s ds = find (\<lambda>d. ser d = s) ds"

lemma find_same_nlri: "find (same_nlri n) ds = by_ser (addrPrefixOnlySerialize n) ds"
  unfolding by_ser_def by (rule arg_cong [where f = "\<lambda>P. find P ds"]) (auto simp: same_nlri_ser)

lemma index_of_Some:
  assumes "index_of P i xs = Some k"
  shows "\<exists>j < length xs. k = i + j \<and> P (xs ! j) \<and> (\<forall>l < j. \<not> P (xs ! l))"
  using assms
proof (induction xs arbitrary: i)
  case (Cons x xs)
  show ?case
  proof (cases "P x")
    case True
    then show ?thesis using Cons.prems by (intro exI [of _ 0]) simp
  next
    case False
    then obtain j where "j < length xs" "k = i + 1 + j" "P (xs ! j)" "\<forall>l < j. \<not> P (xs ! l)"
      using Cons.IH [of "i + 1"] Cons.prems by auto
    then show ?thesis using False by (intro exI [of _ "Suc j"]) (auto simp: nth_Cons split: nat.splits)
  qed
qed simp

lemma index_of_None: "index_of P i xs = None \<longleftrightarrow> (\<forall>x \<in> set xs. \<not> P x)"
  by (induction xs arbitrary: i) auto

lemma by_ser_None: "by_ser s ds = None \<longleftrightarrow> s \<notin> ser ` set ds"
  by (auto simp: by_ser_def find_None_iff)

lemma by_ser_Some:
  assumes "distinct (map ser ds)"
  shows "by_ser s ds = Some d \<longleftrightarrow> d \<in> set ds \<and> ser d = s"
  using assms by (induction ds) (auto simp: by_ser_def)

lemma by_ser_append: "by_ser s (ds @ es) = (case by_ser s ds of None \<Rightarrow> by_ser s es | Some d \<Rightarrow> Some d)"
  by (induction ds) (auto simp: by_ser_def)

lemma by_ser_update:
  assumes "distinct (map ser ds)" and "j < length ds" and "ser d = ser (ds ! j)"
  shows "by_ser s (ds[j := d]) = (if s = ser d then Some d else by_ser s ds)"
  using assms
proof (induction ds arbitrary: j)
  case (Cons e ds)
  then show ?case by (cases j) (auto simp: by_ser_def)
qed simp

lemma remove_nth_0 [simp]: "remove_nth 0 (x # xs) = xs"
  by (simp add: remove_nth_def)

lemma remove_nth_Suc [simp]: "remove_nth (Suc j) (x # xs) = x # remove_nth j xs"
  by (simp add: remove_nth_def)

lemma set_remove_nth: "set (remove_nth j xs) \<subseteq> set xs"
  by (auto simp: remove_nth_def dest: in_set_takeD in_set_dropD)

lemma mset_remove_nth: "j < length xs \<Longrightarrow> mset (remove_nth j xs) + {#xs ! j#} = mset xs"
  by (induction xs arbitrary: j) (auto simp: nth_Cons split: nat.splits)

lemma distinct_map_remove_nth: "distinct (map f xs) \<Longrightarrow> distinct (map f (remove_nth j xs))"
proof (induction xs arbitrary: j)
  case (Cons x xs)
  then show ?case using set_remove_nth by (cases j) fastforce+
qed (simp add: remove_nth_def)

lemma by_ser_remove:
  assumes "distinct (map ser ds)" and "j < length ds"
  shows "by_ser s (remove_nth j ds) = (if s = ser (ds ! j) then None else by_ser s ds)"
  using assms
proof (induction ds arbitrary: j)
  case (Cons e ds)
  show ?case
  proof (cases j)
    case 0
    then show ?thesis using Cons.prems by (auto simp: by_ser_None) (auto simp: by_ser_def)
  next
    case (Suc k)
    then show ?thesis using Cons by (auto simp: by_ser_def)
  qed
qed simp

subsection \<open>Buckets\<close>

definition key_index :: "u64 \<Rightarrow> Destinations \<Rightarrow> nat" where
  "key_index k D = unat (and (ucast k) (mask D))"

definition bucket :: "u64 \<Rightarrow> Destinations \<Rightarrow> dest list" where
  "bucket k D = (case shards D of None \<Rightarrow> [] | Some ss \<Rightarrow>
     (case map_of (ss ! key_index k D) k of None \<Rightarrow> [] | Some ds \<Rightarrow> ds))"

definition shards_ok :: "Destinations \<Rightarrow> bool" where
  "shards_ok D \<longleftrightarrow> mask D + 1 \<noteq> 0 \<and>
     (case shards D of None \<Rightarrow> True
      | Some ss \<Rightarrow> length ss = unat (mask D) + 1 \<and>
          (\<forall>i < length ss. distinct (map fst (ss ! i)) \<and> (\<forall>k \<in> fst ` set (ss ! i). key_index k D = i)))"

lemma key_index_less: "key_index k D \<le> unat (mask D)"
  by (simp add: key_index_def word_le_nat_alt [symmetric] word_and_le1)

lemma shard_index_key: "shard_index H n D = key_index (tableKey H n) D"
  by (simp add: shard_index_def key_index_def)

lemma key_index_mask [simp]: "key_index k (D\<lparr>shards := x\<rparr>) = key_index k D"
  by (simp add: key_index_def)

lemma getShardForInsert_alloc: "getShardForInsert H n D = (alloc_shards D, key_index (tableKey H n) D)"
  by (auto simp: getShardForInsert_def alloc_shards_def Let_def shard_index_key split: option.splits)

lemma alloc_shards_spec:
  assumes "shards_ok D"
  shows "shards_ok (alloc_shards D)" "shards (alloc_shards D) = Some (loadShards (alloc_shards D))"
    "length (loadShards (alloc_shards D)) = unat (mask D) + 1" "mask (alloc_shards D) = mask D"
    "bucket k (alloc_shards D) = bucket k D" "all_destinations (alloc_shards D) = all_destinations D"
proof -
  have m: "unat (mask D + 1) = unat (mask D) + 1" using assms unatSuc [of "mask D"] by (simp add: shards_ok_def add.commute)
  have k: "key_index k D < unat (mask D) + 1" for k using key_index_less [of k D] by simp
  show "shards_ok (alloc_shards D)" "shards (alloc_shards D) = Some (loadShards (alloc_shards D))"
    "length (loadShards (alloc_shards D)) = unat (mask D) + 1" "mask (alloc_shards D) = mask D"
    "bucket k (alloc_shards D) = bucket k D" "all_destinations (alloc_shards D) = all_destinations D"
    using assms k m
    by (auto simp del: replicate_Suc simp: alloc_shards_def shards_ok_def loadShards_def bucket_def all_destinations_def
        split: option.splits)
qed

lemma mset_concat_update:
  assumes "i < length xss"
  shows "mset (concat (xss[i := xs])) + mset (xss ! i) = mset (concat xss) + mset xs"
  using assms
proof (induction xss arbitrary: i)
  case (Cons ys xss)
  show ?case
  proof (cases i)
    case 0
    then show ?thesis by (simp add: ac_simps)
  next
    case (Suc j)
    then have "mset (concat (xss[j := xs])) + mset (xss ! j) = mset (concat xss) + mset xs" using Cons by simp
    then show ?thesis using Suc by (simp add: ac_simps)
  qed
qed simp

lemma mset_concat_AList_update:
  assumes "distinct (map fst al)"
  shows "mset (concat (map snd (AList.update k v al))) + mset (case map_of al k of None \<Rightarrow> [] | Some w \<Rightarrow> w) =
    mset (concat (map snd al)) + mset v"
  using assms
proof (induction al)
  case (Cons e al)
  obtain k' w where e: "e = (k', w)" by (cases e)
  show ?case
  proof (cases "k' = k")
    case True
    then show ?thesis by (simp add: e ac_simps)
  next
    case False
    then have "mset (concat (map snd (AList.update k v al))) + mset (case map_of al k of None \<Rightarrow> [] | Some w \<Rightarrow> w) =
        mset (concat (map snd al)) + mset v"
      using Cons by (simp add: e)
    then show ?thesis using False by (simp add: e ac_simps)
  qed
qed simp

lemma mset_concat_AList_delete_nil:
  assumes "distinct (map fst al)" and "map_of al k = Some []"
  shows "mset (concat (map snd (AList.delete k al))) = mset (concat (map snd al))"
  using assms
proof (induction al)
  case (Cons e al)
  show ?case
  proof (cases "fst e = k")
    case True
    then have "k \<notin> fst ` set al" using Cons.prems(1) by auto
    then have "AList.delete k al = al" by (force simp: AList.delete_eq filter_id_conv)
    then show ?thesis using True Cons.prems(2) by (cases e) (auto simp: AList.delete_eq)
  next
    case False
    then have "map_of al k = Some []" using Cons.prems(2) by (cases e) auto
    then show ?thesis using False Cons by (cases e) (simp add: AList.delete_eq)
  qed
qed simp

lemma shard_facts:
  assumes "shards_ok D" and "shards D \<noteq> None"
  shows "shards D = Some (loadShards D)" "key_index k D < length (loadShards D)" "length (loadShards D) = unat (mask D) + 1"
    "i < length (loadShards D) \<Longrightarrow> distinct (map fst (loadShards D ! i))"
    "i < length (loadShards D) \<Longrightarrow> k' \<in> fst ` set (loadShards D ! i) \<Longrightarrow> key_index k' D = i"
    "bucket k D = (case map_of (loadShards D ! key_index k D) k of None \<Rightarrow> [] | Some ds \<Rightarrow> ds)"
  using assms key_index_less [of k D] by (auto simp: shards_ok_def loadShards_def bucket_def) force

lemma shards_ok_set:
  assumes "shards_ok D" and "shards D \<noteq> None" and "distinct (map fst sh)" and "fst ` set sh \<subseteq> insert k (fst ` set (loadShards D ! key_index k D))"
  shows "shards_ok (D\<lparr>shards := Some ((loadShards D)[key_index k D := sh])\<rparr>)"
proof -
  note f = shard_facts [OF assms(1,2)]
  have "distinct (map fst ((loadShards D)[key_index k D := sh] ! i)) \<and>
      (\<forall>k' \<in> fst ` set ((loadShards D)[key_index k D := sh] ! i). key_index k' D = i)" if "i < length (loadShards D)" for i
  proof (cases "i = key_index k D")
    case True
    have "key_index k' D = key_index k D" if "k' \<in> fst ` set sh" for k'
      using that assms(4) f(5) [OF f(2) [of k], of k'] by (cases "k' = k") auto
    then show ?thesis using True assms(3) f(2) by simp
  next
    case False
    then show ?thesis using that f(4,5) [OF that] by simp
  qed
  then show ?thesis using assms(1) f(3) by (simp add: shards_ok_def)
qed

lemma shard_put_simps [simp]:
  "mask (shard_put i k ds D) = mask D" "shards (shard_put i k ds D) \<noteq> None" "key_index k' (shard_put i k ds D) = key_index k' D"
  by (simp_all add: shard_put_def)

lemma bucket_set:
  assumes "shards_ok D" and "shards D \<noteq> None"
  shows "bucket k' (D\<lparr>shards := Some ((loadShards D)[key_index k D := sh])\<rparr>) =
    (if key_index k' D = key_index k D then (case map_of sh k' of None \<Rightarrow> [] | Some ds \<Rightarrow> ds) else bucket k' D)"
  using shard_facts [OF assms] by (auto simp: bucket_def nth_list_update)

lemma shard_put_spec:
  assumes "shards_ok D" and "shards D \<noteq> None"
  shows "shards_ok (shard_put (key_index k D) k ds D)"
    "bucket k' (shard_put (key_index k D) k ds D) = (if k' = k then ds else bucket k' D)"
    "mset (all_destinations (shard_put (key_index k D) k ds D)) + mset (bucket k D) = mset (all_destinations D) + mset ds"
    "shard_get (key_index k D) k (shard_put (key_index k D) k ds D) = Some ds"
proof -
  let ?i = "key_index k D" and ?L = "loadShards D"
  note f = shard_facts [OF assms]
  show "shards_ok (shard_put ?i k ds D)"
    unfolding shard_put_def using f(2,4) by (intro shards_ok_set [OF assms]) (auto simp: distinct_update dom_update)
  show "bucket k' (shard_put ?i k ds D) = (if k' = k then ds else bucket k' D)"
    unfolding shard_put_def bucket_set [OF assms] using f(6) [of k'] by (auto simp: update_conv)
  have u: "map (\<lambda>sh. concat (map snd sh)) (?L[?i := sh]) = (map (\<lambda>sh. concat (map snd sh)) ?L)[?i := concat (map snd sh)]" for sh :: shard
    by (simp add: map_update)
  have "mset (all_destinations (shard_put ?i k ds D)) + mset (concat (map snd (?L ! ?i))) =
      mset (all_destinations D) + mset (concat (map snd (AList.update k ds (?L ! ?i))))"
    using mset_concat_update [of ?i "map (\<lambda>sh. concat (map snd sh)) ?L"] f(2)
    by (simp add: all_destinations_def shard_put_def loadShards_def [of "D\<lparr>shards := _\<rparr>"] u)
  moreover have "mset (concat (map snd (AList.update k ds (?L ! ?i)))) + mset (bucket k D) =
      mset (concat (map snd (?L ! ?i))) + mset ds"
    unfolding f(6) by (rule mset_concat_AList_update [OF f(4) [OF f(2)]])
  ultimately have "mset (all_destinations (shard_put ?i k ds D)) + mset (bucket k D) + mset (concat (map snd (?L ! ?i))) =
      mset (all_destinations D) + mset ds + mset (concat (map snd (?L ! ?i)))"
    by (simp add: ac_simps)
  then show "mset (all_destinations (shard_put ?i k ds D)) + mset (bucket k D) = mset (all_destinations D) + mset ds"
    by (rule add_right_imp_eq)
  show "shard_get ?i k (shard_put ?i k ds D) = Some ds"
    using f(2) by (simp add: shard_get_def shard_put_def loadShards_def [of "D\<lparr>shards := _\<rparr>"] update_conv)
qed

lemma shard_delete_spec:
  assumes "shards_ok D" and "shards D \<noteq> None" and "shard_get (key_index k D) k D = Some []"
  shows "shards_ok (shard_delete (key_index k D) k D)"
    "bucket k' (shard_delete (key_index k D) k D) = bucket k' D"
    "mset (all_destinations (shard_delete (key_index k D) k D)) = mset (all_destinations D)"
    "mask (shard_delete (key_index k D) k D) = mask D"
proof -
  let ?i = "key_index k D" and ?L = "loadShards D"
  note f = shard_facts [OF assms(1,2)]
  have nil: "map_of (?L ! ?i) k = Some []" using assms(3) by (simp add: shard_get_def)
  show "shards_ok (shard_delete ?i k D)"
    unfolding shard_delete_def using f(2,4)
    by (intro shards_ok_set [OF assms(1,2)]) (auto simp: AList.delete_eq distinct_map_filter)
  show "bucket k' (shard_delete ?i k D) = bucket k' D"
    unfolding shard_delete_def bucket_set [OF assms(1,2)] using f(6) [of k'] nil by (auto simp: AList.delete_conv)
  have u: "map (\<lambda>sh. concat (map snd sh)) (?L[?i := sh]) = (map (\<lambda>sh. concat (map snd sh)) ?L)[?i := concat (map snd sh)]" for sh :: shard
    by (simp add: map_update)
  have "mset (all_destinations (shard_delete ?i k D)) + mset (concat (map snd (?L ! ?i))) =
      mset (all_destinations D) + mset (concat (map snd (AList.delete k (?L ! ?i))))"
    using mset_concat_update [of ?i "map (\<lambda>sh. concat (map snd sh)) ?L"] f(2)
    by (simp add: all_destinations_def shard_delete_def loadShards_def [of "D\<lparr>shards := _\<rparr>"] u)
  then show "mset (all_destinations (shard_delete ?i k D)) = mset (all_destinations D)"
    using mset_concat_AList_delete_nil [OF f(4) [OF f(2)] nil] by simp
  show "mask (shard_delete ?i k D) = mask D" by (simp add: shard_delete_def)
qed

lemma shard_put_twice:
  assumes "shards_ok D" and "shards D \<noteq> None"
  shows "shard_put (key_index k D) k es (shard_put (key_index k D) k ds D) = shard_put (key_index k D) k es D"
  using shard_facts(2) [OF assms, of k] by (simp add: shard_put_def loadShards_def [of "D\<lparr>shards := _\<rparr>"])

subsection \<open>Destinations of a table\<close>

definition rib_wf :: "hash_ops \<Rightarrow> (dest \<Rightarrow> bool) \<Rightarrow> Destinations \<Rightarrow> bool" where
  "rib_wf H P D \<longleftrightarrow> shards_ok D \<and>
     (\<forall>k. distinct (map ser (bucket k D)) \<and> (\<forall>d \<in> set (bucket k D). tableKey H (dest_nlri d) = k \<and> P d))"

definition dest_lookup :: "hash_ops \<Rightarrow> table_nlri \<Rightarrow> Destinations \<Rightarrow> dest option" where
  "dest_lookup H n D = by_ser (addrPrefixOnlySerialize n) (bucket (tableKey H n) D)"

lemma rib_wfD:
  assumes "rib_wf H P D"
  shows "shards_ok D" "distinct (map ser (bucket k D))" "d \<in> set (bucket k D) \<Longrightarrow> tableKey H (dest_nlri d) = k"
    "d \<in> set (bucket k D) \<Longrightarrow> P d"
  using assms by (auto simp: rib_wf_def)

lemma dest_lookup_wf:
  assumes "rib_wf H P D" and "dest_lookup H n D = Some d"
  shows "P d" "nlri_id H (dest_nlri d) = nlri_id H n"
  using assms rib_wfD [OF assms(1)] by (auto simp: dest_lookup_def by_ser_Some nlri_id_def)

text \<open>The destination for an NLRI is fetched or made, changed, and then stored, or deleted if it may be.
  The following facts say what this does to the table as a whole.\<close>

definition fetched :: "hash_ops \<Rightarrow> table_nlri \<Rightarrow> dest \<Rightarrow> Destinations \<Rightarrow> dest" where
  "fetched H n fresh D = (case dest_lookup H n D of Some d \<Rightarrow> d | None \<Rightarrow> fresh)"

definition old_dest :: "hash_ops \<Rightarrow> table_nlri \<Rightarrow> Destinations \<Rightarrow> dest multiset" where
  "old_dest H n D = (case dest_lookup H n D of Some d \<Rightarrow> {#d#} | None \<Rightarrow> {#})"

lemma newDestination_total: "\<exists>d. newDestination n size0 [] = Inr d \<and> dest_nlri d = n \<and> knownPathList d = []"
proof (cases "size0 = 0")
  case False
  then have "0 < length (NewBitmap size0)" by (simp add: NewBitmap_def)
  then obtain m where "Flag 0 (NewBitmap size0) = (Inr m :: (unit, bitmap) res)"
    using Flag_spec [of 0 "NewBitmap size0", where 'a = unit] by auto
  then show ?thesis using False by (simp add: newDestination_def)
qed (simp add: newDestination_def)

lemma getOrCreateDest_bucket:
  assumes "shards_ok D" and "shards D \<noteq> None" and "newDestination n mapSize [] = Inr fresh"
    and k: "k = tableKey H n"
  shows "getOrCreateDest H (key_index k D) n mapSize D =
    (case index_of (same_nlri n) 0 (bucket k D) of
       Some j \<Rightarrow> Inr (D, j)
     | None \<Rightarrow> Inr (shard_put (key_index k D) k (bucket k D @ [fresh]) D, length (bucket k D)))"
proof -
  note f = shard_facts [OF assms(1,2)]
  have get: "shard_get (key_index k D) k D = map_of (loadShards D ! key_index k D) k" by (simp add: shard_get_def)
  show ?thesis
  proof (cases "map_of (loadShards D ! key_index k D) k")
    case None
    then have "bucket k D = []" "shard_get (key_index k D) k D = None" using f(6) [of k] get by simp_all
    then show ?thesis
      using assms(3) shard_put_spec(4) [OF assms(1,2), of k "[]"] shard_put_twice [OF assms(1,2), of k "[fresh]" "[]"]
      by (simp add: getOrCreateDest_def Let_def flip: k)
  next
    case (Some ds)
    then have "bucket k D = ds" "shard_get (key_index k D) k D = Some ds" using f(6) [of k] get by simp_all
    then show ?thesis
      using assms(3) by (simp add: getOrCreateDest_def Let_def split: option.splits flip: k)
  qed
qed

lemma getOrCreateDest_spec:
  assumes "rib_wf H P D" and "shards D \<noteq> None" and "newDestination n mapSize [] = Inr fresh"
    and k: "k = tableKey H n"
  shows "\<exists>D2 j ds. getOrCreateDest H (key_index k D) n mapSize D = Inr (D2, j) \<and>
    dest_at (key_index k D) k j D2 = fetched H n fresh D \<and> j < length ds \<and> ds ! j = fetched H n fresh D \<and>
    mset ds = mset (bucket k D) + (case dest_lookup H n D of Some d \<Rightarrow> {#} | None \<Rightarrow> {#fresh#}) \<and>
    (\<forall>d. set_dest (key_index k D) k j d D2 = shard_put (key_index k D) k (ds[j := d]) D) \<and>
    distinct (map ser ds) \<and> (\<forall>s. s \<noteq> addrPrefixOnlySerialize n \<longrightarrow> by_ser s ds = by_ser s (bucket k D)) \<and>
    set ds \<subseteq> insert fresh (set (bucket k D))"
proof (cases "index_of (same_nlri n) 0 (bucket k D)")
  case None
  let ?ds = "bucket k D @ [fresh]"
  have ok: "shards_ok D" using rib_wfD(1) [OF assms(1)] .
  have fr: "dest_nlri fresh = n" using newDestination_total [of n mapSize] assms(3) by auto
  have no: "addrPrefixOnlySerialize n \<notin> ser ` set (bucket k D)" using None by (auto simp: index_of_None same_nlri_ser)
  then have l: "dest_lookup H n D = None" by (simp add: dest_lookup_def by_ser_None k)
  have e: "getOrCreateDest H (key_index k D) n mapSize D = Inr (shard_put (key_index k D) k ?ds D, length (bucket k D))"
    using getOrCreateDest_bucket [OF ok assms(2,3) k] None by simp
  note p = shard_put_spec(4) [OF ok assms(2), of k ?ds] and pp = shard_put_twice [OF ok assms(2), of k]
  have "distinct (map ser ?ds)" using rib_wfD(2) [OF assms(1), of k] no fr by simp
  moreover have "s \<noteq> addrPrefixOnlySerialize n \<longrightarrow> by_ser s ?ds = by_ser s (bucket k D)" for s
    unfolding by_ser_append using fr by (auto simp: by_ser_def split: option.splits)
  ultimately show ?thesis
    using e p pp l
    by (intro exI [of _ "shard_put (key_index k D) k ?ds D"] exI [of _ "length (bucket k D)"] exI [of _ ?ds])
      (auto simp: dest_at_def set_dest_def fetched_def)
next
  case (Some j)
  have ok: "shards_ok D" using rib_wfD(1) [OF assms(1)] .
  obtain "j < length (bucket k D)" "ser (bucket k D ! j) = addrPrefixOnlySerialize n"
    using index_of_Some [OF Some] by (auto simp: same_nlri_ser)
  note j = this
  have l: "dest_lookup H n D = Some (bucket k D ! j)"
    using j by (simp add: dest_lookup_def by_ser_Some [OF rib_wfD(2) [OF assms(1)]] flip: k)
  have e: "getOrCreateDest H (key_index k D) n mapSize D = Inr (D, j)"
    using getOrCreateDest_bucket [OF ok assms(2,3) k] Some by simp
  have b: "bucket k D \<noteq> []" using j(1) by auto
  then have get: "shard_get (key_index k D) k D = Some (bucket k D)"
    using shard_facts(6) [OF ok assms(2), of k] by (auto simp: shard_get_def split: option.splits)
  show ?thesis
    using e get l j rib_wfD(2) [OF assms(1), of k]
    by (intro exI [of _ D] exI [of _ j] exI [of _ "bucket k D"]) (auto simp: dest_at_def set_dest_def fetched_def)
qed

lemma shard_put_wf:
  assumes "rib_wf H P D" and "shards D \<noteq> None" and "distinct (map ser ds)"
    and "\<And>d. d \<in> set ds \<Longrightarrow> tableKey H (dest_nlri d) = k \<and> P d"
  shows "rib_wf H P (shard_put (key_index k D) k ds D)"
proof -
  note put = shard_put_spec [OF rib_wfD(1) [OF assms(1)] assms(2), where k = k and ds = ds]
  show ?thesis unfolding rib_wf_def put(2) using put(1) rib_wfD(2-4) [OF assms(1)] assms(3,4) by auto
qed

lemma visit_spec:
  assumes "rib_wf H P D0" and "newDestination n mapSize [] = Inr fresh" and "P fresh" and k: "k = tableKey H n"
  shows "\<exists>D1 D2 j. getShardForInsert H n D0 = (D1, key_index k D0) \<and>
    getOrCreateDest H (key_index k D0) n mapSize D1 = Inr (D2, j) \<and>
    dest_at (key_index k D0) k j D2 = fetched H n fresh D0 \<and>
    (\<forall>d. dest_nlri d = dest_nlri (fetched H n fresh D0) \<and> P d \<longrightarrow>
       shards (set_dest (key_index k D0) k j d D2) \<noteq> None \<and> mask (set_dest (key_index k D0) k j d D2) = mask D0 \<and>
       rib_wf H P (set_dest (key_index k D0) k j d D2) \<and>
       (\<forall>m. dest_lookup H m (set_dest (key_index k D0) k j d D2) =
          (if nlri_id H m = nlri_id H n then Some d else dest_lookup H m D0)) \<and>
       mset (all_destinations (set_dest (key_index k D0) k j d D2)) + old_dest H n D0 = mset (all_destinations D0) + {#d#})"
proof -
  define D where "D = alloc_shards D0"
  note al = alloc_shards_spec [OF rib_wfD(1) [OF assms(1)]]
  have b: "bucket k' D = bucket k' D0" for k' using al(5) by (simp add: D_def)
  have ix: "key_index k' D = key_index k' D0" for k' using al(4) by (simp add: D_def key_index_def)
  have wf: "rib_wf H P D" using assms(1) al(1) b by (simp add: rib_wf_def D_def)
  have ne: "shards D \<noteq> None" using al(2) by (simp add: D_def)
  have lk: "dest_lookup H m D = dest_lookup H m D0" for m by (simp add: dest_lookup_def b)
  have fe: "fetched H n fresh D = fetched H n fresh D0" by (simp add: fetched_def lk)
  have fr: "dest_nlri fresh = n" using newDestination_total [of n mapSize] assms(2) by auto
  obtain D2 j ds where g: "getOrCreateDest H (key_index k D) n mapSize D = Inr (D2, j)"
      "dest_at (key_index k D) k j D2 = fetched H n fresh D" "j < length ds" "ds ! j = fetched H n fresh D"
      "mset ds = mset (bucket k D) + (case dest_lookup H n D of Some d \<Rightarrow> {#} | None \<Rightarrow> {#fresh#})"
      "\<And>d. set_dest (key_index k D) k j d D2 = shard_put (key_index k D) k (ds[j := d]) D"
      "distinct (map ser ds)" "\<And>s. s \<noteq> addrPrefixOnlySerialize n \<Longrightarrow> by_ser s ds = by_ser s (bucket k D)"
      "set ds \<subseteq> insert fresh (set (bucket k D))"
    using getOrCreateDest_spec [OF wf ne assms(2) k] by blast
  have fid: "nlri_id H (dest_nlri (fetched H n fresh D)) = nlri_id H n"
    using dest_lookup_wf(2) [OF wf] fr by (auto simp: fetched_def split: option.splits)
  have all: "tableKey H (dest_nlri d) = k \<and> P d" if "d \<in> set ds" for d
    using that g(9) rib_wfD(3,4) [OF wf] fr assms(3) k by auto
  have "shards D3 \<noteq> None \<and> mask D3 = mask D0 \<and> rib_wf H P D3 \<and>
      (\<forall>m. dest_lookup H m D3 = (if nlri_id H m = nlri_id H n then Some d else dest_lookup H m D0)) \<and>
      mset (all_destinations D3) + old_dest H n D0 = mset (all_destinations D0) + {#d#}"
    if d: "dest_nlri d = dest_nlri (fetched H n fresh D)" "P d" and D3: "D3 = shard_put (key_index k D) k (ds[j := d]) D" for d D3
  proof -
    have key: "tableKey H (dest_nlri d) = k" "ser d = addrPrefixOnlySerialize n" "ser d = ser (ds ! j)"
      using d(1) fid k g(4) by (auto simp: nlri_id_def)
    have dist: "distinct (map ser (ds[j := d]))"
    proof -
      have "map ser (ds[j := d]) = map ser ds" using g(3) key(3) by (simp add: map_update list_update_same_conv)
      then show ?thesis using g(7) by simp
    qed
    have el: "tableKey H (dest_nlri x) = k \<and> P x" if "x \<in> set (ds[j := d])" for x
      using that all key(1) d(2) set_update_subset_insert [of ds j d] by blast
    have "rib_wf H P D3" unfolding D3 by (rule shard_put_wf [OF wf ne dist el])
    moreover note put = shard_put_spec [OF rib_wfD(1) [OF wf] ne, where k = k]
    have "dest_lookup H m D3 = (if nlri_id H m = nlri_id H n then Some d else dest_lookup H m D0)" for m
      unfolding dest_lookup_def D3 put(2)
      using by_ser_update [OF g(7,3) key(3)] g(8) key(2) b by (auto simp: nlri_id_def k)
    moreover have "mset (all_destinations D3) + old_dest H n D0 = mset (all_destinations D0) + {#d#}"
    proof -
      have m: "mset (ds[j := d]) + {#ds ! j#} = mset ds + {#d#}"
        using g(3) by (simp add: mset_update)
      have p3: "mset (all_destinations D3) + mset (bucket k D) = mset (all_destinations D0) + mset (ds[j := d])"
        unfolding D3 using put(3) al(6) by (simp add: D_def)
      show ?thesis
      proof (cases "dest_lookup H n D")
        case None
        then have "ds ! j = fresh" "mset ds = mset (bucket k D) + {#fresh#}" using g(4,5) by (simp_all add: fetched_def)
        then have "mset (ds[j := d]) = mset (bucket k D) + {#d#}" using m by simp
        then show ?thesis using p3 None lk by (simp add: old_dest_def)
      next
        case (Some e)
        then have "ds ! j = e" "mset ds = mset (bucket k D)" using g(4,5) by (simp_all add: fetched_def)
        then have "mset (all_destinations D3) + {#e#} + mset (bucket k D) = mset (all_destinations D0) + {#d#} + mset (bucket k D)"
          using m p3 by (metis (no_types, lifting) add.assoc add.commute)
        then show ?thesis using Some lk by (simp add: old_dest_def)
      qed
    qed
    ultimately show ?thesis using al(4) by (simp add: D3 D_def)
  qed
  then show ?thesis
    using g(1,2,6) getShardForInsert_alloc [of H n D0] k fe ix
    by (intro exI [of _ D] exI [of _ D2] exI [of _ j]) (auto simp: D_def)
qed

lemma deleteDest_spec:
  assumes "rib_wf H P D" and "shards D \<noteq> None" and "dest_lookup H (dest_nlri d) D = Some d"
    and "localIdMap d = [] \<or> sum_list (map OnesCount64 (localIdMap d)) = 1" and k: "k = tableKey H (dest_nlri d)"
  shows "rib_wf H P (deleteDest H (key_index k D) d D)"
    "dest_lookup H m (deleteDest H (key_index k D) d D) = (if nlri_id H m = nlri_id H (dest_nlri d) then None else dest_lookup H m D)"
    "mset (all_destinations (deleteDest H (key_index k D) d D)) + {#d#} = mset (all_destinations D)"
proof -
  note ok = rib_wfD(1) [OF assms(1)] and dist = rib_wfD(2) [OF assms(1), of k]
  have d: "d \<in> set (bucket k D)" using assms(3) by (simp add: dest_lookup_def by_ser_Some [OF dist [unfolded k]] k)
  then have get: "shard_get (key_index k D) k D = Some (bucket k D)"
    using shard_facts(6) [OF ok assms(2), of k] by (auto simp: shard_get_def split: option.splits)
  obtain j where j: "index_of (same_nlri (dest_nlri d)) 0 (bucket k D) = Some j"
    using d by (cases "index_of (same_nlri (dest_nlri d)) 0 (bucket k D)") (auto simp: index_of_None same_nlri_ser)
  have j': "j < length (bucket k D)" "ser (bucket k D ! j) = ser d"
    using index_of_Some [OF j] by (auto simp: same_nlri_ser)
  then have jd: "bucket k D ! j = d" using dist d by (auto simp: distinct_map inj_on_def)
  define rest where "rest = remove_nth j (bucket k D)"
  define D1 where "D1 = shard_put (key_index k D) k rest D"
  have del: "deleteDest H (key_index k D) d D = (if rest = [] then shard_delete (key_index k D) k D1 else D1)"
    using assms(4) get j by (auto simp: deleteDest_def Let_def rest_def D1_def simp flip: k)
  have "rib_wf H P D1"
    unfolding D1_def using set_remove_nth [of j "bucket k D"] rib_wfD(3,4) [OF assms(1), of _ k]
    by (intro shard_put_wf [OF assms(1,2)]) (auto simp: rest_def distinct_map_remove_nth [OF dist])
  note put = shard_put_spec [OF ok assms(2), where k = k and ds = rest, folded D1_def]
  have ix: "key_index k D1 = key_index k D" and ne: "shards D1 \<noteq> None" by (simp_all add: D1_def)
  have D2: "rib_wf H P D2 \<and> (\<forall>k'. bucket k' D2 = bucket k' D1) \<and> mset (all_destinations D2) = mset (all_destinations D1)"
    if "D2 = deleteDest H (key_index k D) d D" for D2
  proof (cases "rest = []")
    case True
    then have "D2 = shard_delete (key_index k D1) k D1" using that del ix by simp
    then show ?thesis
      using shard_delete_spec [OF put(1) ne, of k] put(4) True ix \<open>rib_wf H P D1\<close> by (auto simp: rib_wf_def)
  next
    case False
    then show ?thesis using that del \<open>rib_wf H P D1\<close> by simp
  qed
  show "rib_wf H P (deleteDest H (key_index k D) d D)" using D2 by blast
  show "dest_lookup H m (deleteDest H (key_index k D) d D) = (if nlri_id H m = nlri_id H (dest_nlri d) then None else dest_lookup H m D)"
    using D2 put(2) by_ser_remove [OF dist j'(1)] j'(2) by (auto simp: dest_lookup_def nlri_id_def rest_def k)
  have "mset rest + {#d#} = mset (bucket k D)" using mset_remove_nth [OF j'(1)] jd by (simp add: rest_def)
  then have "mset (all_destinations D1) + {#d#} + mset rest = mset (all_destinations D) + mset rest"
    using put(3) unfolding \<open>mset rest + {#d#} = mset (bucket k D)\<close> [symmetric] by (simp only: ac_simps)
  then show "mset (all_destinations (deleteDest H (key_index k D) d D)) + {#d#} = mset (all_destinations D)"
    using D2 by (simp only: add_right_cancel)
qed

lemma bucket_all:
  assumes "shards_ok D"
  shows "set (bucket k D) \<subseteq> set (all_destinations D)"
proof (cases "shards D = None")
  case False
  note f = shard_facts [OF assms False]
  show ?thesis
  proof
    fix d assume "d \<in> set (bucket k D)"
    then obtain ds where "(k, ds) \<in> set (loadShards D ! key_index k D)" "d \<in> set ds"
      using f(6) [of k] by (auto split: option.splits dest: map_of_SomeD)
    then show "d \<in> set (all_destinations D)" using nth_mem [OF f(2)] by (force simp: all_destinations_def)
  qed
qed (simp add: bucket_def)

lemma all_bucket:
  assumes "shards_ok D" and "d \<in> set (all_destinations D)"
  shows "\<exists>k. d \<in> set (bucket k D)"
proof -
  have ne: "shards D \<noteq> None" using assms(2) by (cases "shards D") (auto simp: all_destinations_def loadShards_def)
  note f = shard_facts [OF assms(1) ne]
  obtain i k ds where i: "i < length (loadShards D)" "(k, ds) \<in> set (loadShards D ! i)" "d \<in> set ds"
    using assms(2) by (fastforce simp: all_destinations_def in_set_conv_nth [of _ "loadShards D"])
  then have "k \<in> fst ` set (loadShards D ! i)" by force
  then have "key_index k D = i" by (rule f(5) [OF i(1)])
  moreover have "map_of (loadShards D ! i) k = Some ds" using i(2) f(4) [OF i(1)] by simp
  ultimately show ?thesis using f(6) [of k] i(3) by auto
qed

lemma dest_lookup_all: "shards_ok D \<Longrightarrow> dest_lookup H n D = Some d \<Longrightarrow> d \<in> set (all_destinations D)"
  using bucket_all by (fastforce simp: dest_lookup_def by_ser_def find_Some_iff in_set_conv_nth)

subsection \<open>Updates\<close>

lemma Calculate_nlri: "Calculate opts p d = Inr (d', u, old, p') \<Longrightarrow> dest_nlri d' = dest_nlri d"
  by (auto simp: Calculate_def Let_def insertSort_def explicitWithdraw_def implicitWithdraw_def res_simps
      split: if_splits option.splits prod.splits sum.splits)

definition table_view :: "hash_ops \<Rightarrow> Table \<Rightarrow> table_nlri \<Rightarrow> path_key \<Rightarrow> rib_path option" where
  "table_view H t n = (case dest_lookup H n (destinations t) of None \<Rightarrow> Map.empty | Some d \<Rightarrow> known_paths (knownPathList d))"

definition path_nlri :: "rib_path \<Rightarrow> table_nlri" where
  "path_nlri p = nlri (OriginInfo p)"

definition table_spec :: "hash_ops \<Rightarrow> rib_path \<Rightarrow> (table_nlri \<Rightarrow> path_key \<Rightarrow> rib_path option) \<Rightarrow>
    table_nlri \<Rightarrow> path_key \<Rightarrow> rib_path option" where
  "table_spec H p V = (\<lambda>n. if nlri_id H n = nlri_id H (path_nlri p) then calc_spec p (V n) else V n)"

definition deletable :: "dest \<Rightarrow> bool" where
  "deletable d \<longleftrightarrow> localIdMap d = [] \<or> sum_list (map OnesCount64 (localIdMap d)) = 1"

definition table_inv :: "hash_ops \<Rightarrow> Table \<Rightarrow> bool" where
  "table_inv H t \<longleftrightarrow> rib_wf H dest_wf (destinations t) \<and>
     (\<forall>d \<in> set (all_destinations (destinations t)). knownPathList d \<noteq> [] \<or> \<not> deletable d)"

definition table_room :: "Table \<Rightarrow> nat" where
  "table_room t = 2 ^ 26 - 1 - Max (insert 1 ((\<lambda>d. length (localIdMap d)) ` set (all_destinations (destinations t))))"

definition table_step :: "hash_ops \<Rightarrow> (bytes \<Rightarrow> u64) \<Rightarrow> (table_nlri \<Rightarrow> bytes) \<Rightarrow> RouteSelectionOptionsConfig \<Rightarrow>
    rib_path \<Rightarrow> Table \<Rightarrow> (unit, Table) res" where
  "table_step H farm nlri_bytes opts p t = rbind (table_update H farm nlri_bytes opts p t) (\<lambda>(t', _). Inr t')"

text \<open>What is asked of an input: what its destination asks, or a new one if there is none.\<close>

definition table_input_ok :: "hash_ops \<Rightarrow> rib_path \<Rightarrow> Table \<Rightarrow> bool" where
  "table_input_ok H p t \<longleftrightarrow> (case dest_lookup H (path_nlri p) (destinations t) of
     Some d \<Rightarrow> input_ok p d
   | None \<Rightarrow> IsWithdraw (layer p) \<or> has_router_id p \<and> \<not> noImplicitWithdraw (OriginInfo p) \<and> localID (layer p) = 0)"

lemma view_same_id: "nlri_id H m = nlri_id H n \<Longrightarrow> table_view H t m = table_view H t n"
  by (simp add: table_view_def dest_lookup_def nlri_id_def)

lemma deleteDest_kept: "\<not> deletable d \<Longrightarrow> deleteDest H i d D = D"
  by (simp add: deleteDest_def deletable_def)

lemma settle_spec:
  assumes "rib_wf H P D3" and "shards D3 \<noteq> None" and "mask D3 = mask D"
    and "\<And>m. dest_lookup H m D3 = (if nlri_id H m = nlri_id H n then Some d else dest_lookup H m D)"
    and "mset (all_destinations D3) + old_dest H n D = mset (all_destinations D) + {#d#}"
    and "nlri_id H (dest_nlri d) = nlri_id H n"
    and "\<forall>x \<in> set (all_destinations D). knownPathList x \<noteq> [] \<or> \<not> deletable x"
    and k: "k = tableKey H n"
  defines "gone \<equiv> knownPathList d = [] \<and> deletable d"
    and "D4 \<equiv> (if knownPathList d = [] then deleteDest H (key_index k D) d D3 else D3)"
  shows "rib_wf H P D4 \<and>
    (\<forall>m. dest_lookup H m D4 = (if nlri_id H m = nlri_id H n then (if gone then None else Some d) else dest_lookup H m D)) \<and>
    set (all_destinations D4) \<subseteq> insert d (set (all_destinations D)) \<and>
    (\<forall>x \<in> set (all_destinations D4). knownPathList x \<noteq> [] \<or> \<not> deletable x)"
proof (cases gone)
  case True
  have ix: "key_index k D = key_index k D3" using assms(3) by (simp add: key_index_def)
  have kd: "k = tableKey H (dest_nlri d)" using assms(6) k by (simp add: nlri_id_def)
  have D4: "D4 = deleteDest H (key_index k D3) d D3" using True ix by (simp add: D4_def gone_def)
  have "dest_lookup H (dest_nlri d) D3 = Some d" using assms(4,6) by simp
  note del = deleteDest_spec [OF assms(1,2) this _ kd]
  have d: "localIdMap d = [] \<or> sum_list (map OnesCount64 (localIdMap d)) = 1" using True by (simp add: gone_def deletable_def)
  have "mset (all_destinations D4) + old_dest H n D = mset (all_destinations D)"
  proof -
    have "mset (all_destinations D4) + old_dest H n D + {#d#} = mset (all_destinations D) + {#d#}"
      using assms(5) unfolding D4 del(3) [OF d, symmetric] by (simp only: ac_simps)
    then show ?thesis by (rule add_right_imp_eq)
  qed
  then have "set (all_destinations D4) \<subseteq> set (all_destinations D)" by (metis set_mset_mset set_mset_union Un_upper1)
  then show ?thesis using del(1,2) [OF d] assms(4,6,7) True unfolding D4 by auto
next
  case False
  have D4: "D4 = D3" using False deleteDest_kept by (auto simp: D4_def gone_def)
  have "set (all_destinations D3) \<subseteq> insert d (set (all_destinations D))"
    using arg_cong [OF assms(5), of set_mset] by auto
  then show ?thesis using assms(1,4,7) False unfolding D4 by (auto simp: gone_def)
qed

lemma fetched_spec:
  assumes "rib_wf H dest_wf D" and "newDestination n 64 [] = Inr fresh" and "dest_wf fresh"
    and "knownPathList fresh = []" and "length (localIdMap fresh) = 1"
  shows "dest_wf (fetched H n fresh D)" "nlri_id H (dest_nlri (fetched H n fresh D)) = nlri_id H n"
    "length (localIdMap (fetched H n fresh D)) \<le> Max (insert 1 ((\<lambda>d. length (localIdMap d)) ` set (all_destinations D)))"
    "known_paths (knownPathList (fetched H n fresh D)) =
      (case dest_lookup H n D of None \<Rightarrow> Map.empty | Some d \<Rightarrow> known_paths (knownPathList d))"
proof -
  show "dest_wf (fetched H n fresh D)" "nlri_id H (dest_nlri (fetched H n fresh D)) = nlri_id H n"
    using dest_lookup_wf [OF assms(1)] assms(2,3) newDestination_total [of n 64]
    by (auto simp: fetched_def split: option.splits)
  show "length (localIdMap (fetched H n fresh D)) \<le> Max (insert 1 ((\<lambda>d. length (localIdMap d)) ` set (all_destinations D)))"
    using dest_lookup_all [OF rib_wfD(1) [OF assms(1)]] assms(5) by (auto simp: fetched_def split: option.splits)
  show "known_paths (knownPathList (fetched H n fresh D)) =
      (case dest_lookup H n D of None \<Rightarrow> Map.empty | Some d \<Rightarrow> known_paths (knownPathList d))"
    using assms(4) by (auto simp: fetched_def known_paths_def split: option.splits)
qed

lemma settled_view:
  assumes "\<forall>m. dest_lookup H m D = (if nlri_id H m = nlri_id H (path_nlri p)
      then (if knownPathList d = [] \<and> deletable d then None else Some d) else dest_lookup H m (destinations t))"
    and "known_paths (knownPathList d) = calc_spec p (table_view H t (path_nlri p))"
  shows "table_view H (t\<lparr>destinations := D\<rparr>) = table_spec H p (table_view H t)"
proof
  fix m show "table_view H (t\<lparr>destinations := D\<rparr>) m = table_spec H p (table_view H t) m"
  proof (cases "nlri_id H m = nlri_id H (path_nlri p)")
    case True
    then have "table_view H (t\<lparr>destinations := D\<rparr>) m = known_paths (knownPathList d)"
      using assms(1) by (auto simp: table_view_def known_paths_def)
    then show ?thesis using True assms(2) view_same_id [OF True] by (simp add: table_spec_def)
  next
    case False
    then show ?thesis using assms(1) by (simp add: table_view_def table_spec_def)
  qed
qed

lemma settled_room:
  assumes "set (all_destinations D) \<subseteq> insert d (set (all_destinations (destinations t)))"
    and "length (localIdMap d) \<le> Max (insert 1 ((\<lambda>d. length (localIdMap d)) ` set (all_destinations (destinations t)))) + 1"
  shows "table_room t \<le> table_room (t\<lparr>destinations := D\<rparr>) + 1"
proof -
  let ?M = "\<lambda>D. Max (insert 1 ((\<lambda>d. length (localIdMap d)) ` set (all_destinations D)))"
  define M where "M = ?M (destinations t)"
  have le: "length (localIdMap x) \<le> M" if "x \<in> set (all_destinations (destinations t))" for x
    using that by (simp add: M_def)
  have "length (localIdMap x) \<le> M + 1" if "x \<in> set (all_destinations D)" for x
    using that assms le [of x] unfolding M_def [symmetric] by (cases "x = d") auto
  then have "?M D \<le> M + 1" by (subst Max_le_iff) auto
  moreover have "table_room t = 2 ^ 26 - 1 - M" "table_room (t\<lparr>destinations := D\<rparr>) = 2 ^ 26 - 1 - ?M D"
    by (simp_all add: table_room_def M_def)
  ultimately show ?thesis by linarith
qed

lemma table_step_refines:
  assumes "table_input_ok H p t" and "table_inv H t" and "0 < table_room t"
  shows "\<exists>t'. table_step H farm nlri_bytes opts p t = Inr t' \<and> table_inv H t' \<and>
    table_view H t' = table_spec H p (table_view H t) \<and> table_room t \<le> table_room t' + 1"
proof -
  define n k D where "n = path_nlri p" and "k = tableKey H n" and "D = destinations t"
  let ?len = "\<lambda>d :: dest. length (localIdMap d)"
  define M where "M = Max (insert 1 (?len ` set (all_destinations D)))"
  have wf: "rib_wf H dest_wf D" and kept: "\<forall>d \<in> set (all_destinations D). knownPathList d \<noteq> [] \<or> \<not> deletable d"
    using assms(2) by (auto simp: table_inv_def D_def)
  have M: "M < 2 ^ 26 - 1" using assms(3) by (simp add: table_room_def M_def D_def)
  obtain fresh where fr: "newDestination n 64 [] = Inr fresh" "dest_wf fresh" "knownPathList fresh = []" "?len fresh = 1"
    using newDestination_wf [of n undefined] by blast
  obtain D1 D2 j where v: "getShardForInsert H n D = (D1, key_index k D)" "getOrCreateDest H (key_index k D) n 64 D1 = Inr (D2, j)"
      "dest_at (key_index k D) k j D2 = fetched H n fresh D"
      "\<And>d. dest_nlri d = dest_nlri (fetched H n fresh D) \<Longrightarrow> dest_wf d \<Longrightarrow>
         shards (set_dest (key_index k D) k j d D2) \<noteq> None \<and> mask (set_dest (key_index k D) k j d D2) = mask D \<and>
         rib_wf H dest_wf (set_dest (key_index k D) k j d D2) \<and>
         (\<forall>m. dest_lookup H m (set_dest (key_index k D) k j d D2) =
            (if nlri_id H m = nlri_id H n then Some d else dest_lookup H m D)) \<and>
         mset (all_destinations (set_dest (key_index k D) k j d D2)) + old_dest H n D = mset (all_destinations D) + {#d#}"
    using visit_spec [OF wf fr(1,2) k_def] by blast
  define e where "e = fetched H n fresh D"
  have e: "dest_wf e" "?len e \<le> M" "nlri_id H (dest_nlri e) = nlri_id H n"
      "known_paths (knownPathList e) = table_view H t n"
    using fetched_spec [OF wf fr] by (simp_all only: e_def M_def table_view_def D_def)
  have "input_ok p e"
    using assms(1) fr(3) by (auto simp: table_input_ok_def e_def fetched_def n_def D_def input_ok_def id_free_def split: option.splits)
  then obtain d u p' where c: "Calculate opts p e = Inr (d, u, keyed (path_key p) (knownPathList e), p')" "dest_wf d"
      "?len d \<le> ?len e + 1" "known_paths (knownPathList d) = calc_spec p (known_paths (knownPathList e))"
    using Calculate_step [OF _ e(1), of p opts] e(2) M by auto
  have nlri: "dest_nlri d = dest_nlri e" by (rule Calculate_nlri [OF c(1)])
  define D3 where "D3 = set_dest (key_index k D) k j d D2"
  have 3: "shards D3 \<noteq> None" "mask D3 = mask D" "rib_wf H dest_wf D3"
      "dest_lookup H m D3 = (if nlri_id H m = nlri_id H n then Some d else dest_lookup H m D)"
      "mset (all_destinations D3) + old_dest H n D = mset (all_destinations D) + {#d#}" for m
    using v(4) [of d] nlri c(2) by (simp_all add: e_def D3_def)
  have id: "nlri_id H (dest_nlri d) = nlri_id H n" using nlri e(3) by simp
  define D4 where "D4 = (if knownPathList d = [] then deleteDest H (key_index k D) d D3 else D3)"
  have 4: "rib_wf H dest_wf D4 \<and> (\<forall>m. dest_lookup H m D4 =
      (if nlri_id H m = nlri_id H n then (if knownPathList d = [] \<and> deletable d then None else Some d) else dest_lookup H m D)) \<and>
      set (all_destinations D4) \<subseteq> insert d (set (all_destinations D)) \<and>
      (\<forall>x \<in> set (all_destinations D4). knownPathList x \<noteq> [] \<or> \<not> deletable x)"
    unfolding D4_def by (rule settle_spec [OF 3(3,1,2,4,5) id kept k_def])
  have step: "table_step H farm nlri_bytes opts p t = Inr (t\<lparr>destinations := D4\<rparr>)"
    using v(1,2,3) c(1) unfolding table_step_def table_update_def
    by (simp add: n_def path_nlri_def k_def D_def e_def D3_def D4_def Let_def)
  have "table_view H (t\<lparr>destinations := D4\<rparr>) = table_spec H p (table_view H t)"
    using 4 c(4) e(4) by (intro settled_view [of H D4 p d]) (simp_all add: n_def D_def)
  moreover have "table_room t \<le> table_room (t\<lparr>destinations := D4\<rparr>) + 1"
    using 4 c(3) e(2) by (intro settled_room [of D4 d]) (simp_all only: D_def M_def)
  moreover have "table_inv H (t\<lparr>destinations := D4\<rparr>)" using 4 by (simp add: table_inv_def)
  ultimately show ?thesis using step by blast
qed

interpretation rib_store: refined_store "table_step H farm nlri_bytes opts" "table_input_ok H" "table_inv H"
  "table_view H" "table_spec H" table_room for H farm nlri_bytes opts
  by unfold_locales (rule table_step_refines)

lemma fold_table_spec:
  "fold (table_spec H) ps V n = fold calc_spec (filter (\<lambda>p. nlri_id H (path_nlri p) = nlri_id H n) ps) (V n)"
  by (induction ps arbitrary: V) (auto simp: table_spec_def)

lemma newTable_spec:
  assumes "newTable H rf shardCount [] = Inr t"
  shows "table_inv H t" "table_view H t = (\<lambda>_. Map.empty)" "table_room t = 67108862"
proof -
  have t: "t = \<lparr>Table_Family = rf, destinations = \<lparr>shards = None, mask = shardCount - 1\<rparr>\<rparr>" "shardCount \<noteq> 0"
    using assms by (auto simp: newTable_def newDestinations_def split: if_splits)
  then show "table_inv H t" "table_view H t = (\<lambda>_. Map.empty)" "table_room t = 67108862"
    by (auto simp: table_inv_def rib_wf_def shards_ok_def bucket_def all_destinations_def loadShards_def
        table_view_def dest_lookup_def by_ser_def table_room_def)
qed

lemma snapshot_total: "\<exists>s. snapshot d = Inr s \<and> knownPathList s = knownPathList d \<and> dest_nlri s = dest_nlri d"
  by (simp add: snapshot_def newDestination_def)

lemma Destinations_Get_lookup:
  assumes "shards_ok D"
  shows "\<exists>r. Destinations_Get H n D = Inr r \<and> map_option knownPathList r = map_option knownPathList (dest_lookup H n D)"
proof (cases "shards D = None")
  case True
  then show ?thesis by (simp add: Destinations_Get_def getShard_def dest_lookup_def bucket_def by_ser_def)
next
  case False
  note f = shard_facts [OF assms False]
  have g: "getShard H n D = Some (loadShards D ! key_index (tableKey H n) D)"
    using f(1) by (simp add: getShard_def shard_index_key)
  show ?thesis
  proof (cases "map_of (loadShards D ! key_index (tableKey H n) D) (tableKey H n)")
    case None
    then show ?thesis using g f(6) [of "tableKey H n"] by (simp add: Destinations_Get_def dest_lookup_def by_ser_def)
  next
    case (Some ds)
    then have l: "dest_lookup H n D = find (same_nlri n) ds"
      using f(6) [of "tableKey H n"] by (simp add: dest_lookup_def find_same_nlri)
    show ?thesis
    proof (cases "find (same_nlri n) ds")
      case None
      then show ?thesis using g Some l by (simp add: Destinations_Get_def)
    next
      case (Some d)
      obtain s where "snapshot d = Inr s" "knownPathList s = knownPathList d" using snapshot_total [of d] by auto
      then show ?thesis using g \<open>map_of _ _ = Some ds\<close> Some l by (simp add: Destinations_Get_def)
    qed
  qed
qed

text \<open>What tells the destinations of a table apart is the hash and the serialised prefix. For IP and VPN
  prefixes that is the NLRI itself, whatever the hash.\<close>

definition plain_prefix :: "prefix \<Rightarrow> bool" where
  "plain_prefix p \<longleftrightarrow> IsValid (prefix_addr p) \<and> Zone (prefix_addr p) = [] \<and> prefix_bits p \<le> BitLen (prefix_addr p)"

fun plain_nlri :: "table_nlri \<Rightarrow> bool" where
  "plain_nlri (IPPrefix p) = plain_prefix p"
| "plain_nlri (VPNPrefix rd p) \<longleftrightarrow> length rd = 8 \<and> plain_prefix p"
| "plain_nlri _ = False"

definition prefix_bytes :: "prefix \<Rightarrow> bytes" where
  "prefix_bytes p = AsSlice (prefix_addr p) @ [word_of_nat (prefix_bits p)]"

lemma length_AsSlice_BitLen: "length (AsSlice a) = BitLen a div 8"
  by (cases a) simp_all

lemma serialize_prefix:
  "addrPrefixOnlySerialize (IPPrefix p) = prefix_bytes p"
  "length rd = 8 \<Longrightarrow> addrPrefixOnlySerialize (VPNPrefix rd p) = rd @ prefix_bytes p"
proof -
  have ip: "copy_into 0 xs (replicate (length xs + 1) 0) = xs @ [0]" for xs :: bytes
    by (simp add: copy_into_def del: replicate_Suc, simp?)
  have rd: "copy_into 0 rd (replicate (length xs + 9) 0) = rd @ replicate (length xs + 1) 0" if "length rd = 8" for xs rd :: bytes
    using that by (simp add: copy_into_def del: replicate_Suc, simp?)
  have vpn: "copy_into 8 xs (rd @ replicate (length xs + 1) 0) = rd @ xs @ [0]" if "length rd = 8" for xs rd :: bytes
    using that by (simp add: copy_into_def del: replicate_Suc, simp?)
  show "addrPrefixOnlySerialize (IPPrefix p) = prefix_bytes p"
    unfolding addrPrefixOnlySerialize.simps Let_def length_AsSlice_BitLen [symmetric] ip prefix_bytes_def by (rule list_update_length)
  show "addrPrefixOnlySerialize (VPNPrefix rd p) = rd @ prefix_bytes p" if "length rd = 8"
    unfolding addrPrefixOnlySerialize.simps Let_def length_AsSlice_BitLen [symmetric] rd [OF that] vpn [OF that] prefix_bytes_def
    by (simp add: list_update_append that [symmetric] list_update_length)
qed

lemma prefix_bytes_inj:
  assumes "plain_prefix p" and "plain_prefix q" and "prefix_bytes p = prefix_bytes q"
  shows "p = q"
proof -
  have bits: "prefix_bits p \<le> 128" "prefix_bits q \<le> 128"
    using assms(1,2) by (cases "prefix_addr p"; cases "prefix_addr q"; simp add: plain_prefix_def)+
  have eq: "AsSlice (prefix_addr p) = AsSlice (prefix_addr q)" "word_of_nat (prefix_bits p) = (word_of_nat (prefix_bits q) :: u8)"
    using assms(3) by (simp_all add: prefix_bytes_def)
  have "unat (word_of_nat m :: u8) = m" if "m \<le> 128" for m using that by (simp add: unat_of_nat)
  then have "prefix_bits p = prefix_bits q" using eq(2) bits by metis
  moreover have "prefix_addr p = prefix_addr q"
  proof -
    have "length (AsSlice (prefix_addr p)) = length (AsSlice (prefix_addr q))" using eq(1) by simp
    then show ?thesis
      using eq(1) assms(1,2)
      by (cases "prefix_addr p"; cases "prefix_addr q"; simp add: plain_prefix_def del: to_be_numeral)
        (metis of_be_u32, metis of_be_u128)
  qed
  ultimately show ?thesis by (cases p; cases q) simp
qed

lemma length_prefix_bytes: "plain_prefix p \<Longrightarrow> length (prefix_bytes p) \<in> {5, 17}"
  by (cases "prefix_addr p") (simp_all add: plain_prefix_def prefix_bytes_def del: to_be_numeral)

lemma plain_nlri_id:
  assumes "plain_nlri m" and "plain_nlri n"
  shows "nlri_id H m = nlri_id H n \<longleftrightarrow> m = n"
proof
  assume "nlri_id H m = nlri_id H n"
  then have eq: "addrPrefixOnlySerialize m = addrPrefixOnlySerialize n" by (simp add: nlri_id_def)
  then have len: "length (addrPrefixOnlySerialize m) = length (addrPrefixOnlySerialize n)" by simp
  have apart: "prefix_bytes p \<noteq> rd @ prefix_bytes q" if "plain_prefix p" "plain_prefix q" "length rd = 8" for p q rd
    using length_prefix_bytes [OF that(1)] length_prefix_bytes [OF that(2)] that(3) by auto
  from assms eq len show "m = n"
    by (cases m; cases n)
      (auto simp: serialize_prefix simp del: addrPrefixOnlySerialize.simps simp: apart apart [THEN not_sym] intro: prefix_bytes_inj)
qed simp

subsection \<open>Properties\<close>

text \<open>C6: a table of IP or VPN prefixes is a map from NLRI to destinations, under every selection option.
  After at most 67108862 announcements and withdrawals for any
  number of NLRIs, whatever the hash function, its collisions and the number of shards, the
  table holds for an NLRI exactly what a destination of its own would hold after the paths for that
  NLRI: the last path of each source and path identifier, announced and not withdrawn
  since. No destination stays in the table without a path, unless a local
  path identifier is still in use. The inputs are those a destination takes (\<open>table_input_ok\<close>): an
  announcement has a router identifier or is local, is not exempt from implicit withdrawal, and a
  local identifier it carries is free.\<close>

theorem Table_refines:
  assumes "newTable H rf shardCount [] = Inr t0" and "run_ok (table_step H farm nlri_bytes opts) (table_input_ok H) ps t0"
    and "length ps \<le> 67108862" and "list_all (\<lambda>p. plain_nlri (path_nlri p)) ps" and "plain_nlri n"
  shows "\<exists>t. run_steps (table_step H farm nlri_bytes opts) ps t0 = Inr t \<and>
    (\<exists>r. GetDestination H n t = Inr r \<and>
      (case r of None \<Rightarrow> Map.empty | Some d \<Rightarrow> known_paths (knownPathList d)) =
        fold calc_spec (filter (\<lambda>p. path_nlri p = n) ps) Map.empty) \<and>
    (\<forall>d \<in> set (all_destinations (destinations t)). knownPathList d \<noteq> [] \<or> \<not> deletable d)"
proof -
  note t0 = newTable_spec [OF assms(1)]
  obtain t where t: "run_steps (table_step H farm nlri_bytes opts) ps t0 = Inr t" "table_inv H t"
      "table_view H t = fold (table_spec H) ps (table_view H t0)"
    using rib_store.run_refines [OF assms(2) t0(1)] t0(3) assms(3) by auto
  have ok: "shards_ok (destinations t)" using t(2) rib_wfD(1) by (auto simp: table_inv_def)
  obtain r where r: "GetDestination H n t = Inr r" "map_option knownPathList r = map_option knownPathList (dest_lookup H n (destinations t))"
    using Destinations_Get_lookup [OF ok, of H n] by (auto simp: GetDestination_def)
  have "(case r of None \<Rightarrow> Map.empty | Some d \<Rightarrow> known_paths (knownPathList d)) = table_view H t n"
    using r(2) by (cases r; cases "dest_lookup H n (destinations t)") (auto simp: table_view_def)
  also have "\<dots> = fold calc_spec (filter (\<lambda>p. nlri_id H (path_nlri p) = nlri_id H n) ps) Map.empty"
    unfolding t(3) t0(2) fold_table_spec ..
  also have "filter (\<lambda>p. nlri_id H (path_nlri p) = nlri_id H n) ps = filter (\<lambda>p. path_nlri p = n) ps"
    using assms(4,5) by (intro filter_cong refl) (simp add: list_all_iff plain_nlri_id)
  finally show ?thesis using t(1,2) r(1) by (auto simp: table_inv_def)
qed

text \<open>Two prefixes under a hash that maps everything to zero, in a table of four shards.\<close>

definition ex_hash :: hash_ops where
  "ex_hash = \<lparr>Init64 = 0, AddBytes64 = \<lambda>_ _. 0, AddString64 = \<lambda>_ _. 0\<rparr>"

definition ex_rib :: "u32 \<Rightarrow> u32 \<Rightarrow> rib_path" where
  "ex_rib a w =
     Root \<lparr>nlri = IPPrefix \<lparr>prefix_addr = Addr4 w, prefix_bits = 24\<rparr>,
        source = ex_source\<lparr>AS := a, ID := Addr4 a, Address := Addr4 a\<rparr>, timestamp = 1, stale = False,
        noImplicitWithdraw = False, isFromExternal = False, eor = False\<rparr>
       \<lparr>pathAttrs = [NewPathAttributeOrigin 0, NewPathAttributeAsPath [NewAs4PathParam 2 [a]]], dels = [], attrsHash = 0,
        nh = Some \<lparr>global_nh = Addr4 a, linkLocal = AddrNone\<rparr>, localID = 0, remoteID = 0, family = RF_IPv4_UC,
        rejected = False, dropped = False, IsNexthopInvalid = False, IsWithdraw = False\<rparr>"

theorem Table_refines_witness:
  "\<exists>t0 t r. newTable ex_hash RF_IPv4_UC 4 [] = Inr t0 \<and>
    run_steps (table_step ex_hash (\<lambda>_. 0) (\<lambda>_. []) (ex_opts False))
      [ex_rib 1 0x0A000000, ex_rib 2 0x0A000100, ex_rib 3 0x0A000000, Clone True (ex_rib 1 0x0A000000)] t0 = Inr t \<and>
    GetDestination ex_hash (IPPrefix \<lparr>prefix_addr = Addr4 0x0A000000, prefix_bits = 24\<rparr>) t = Inr r \<and>
    (case r of None \<Rightarrow> Map.empty | Some d \<Rightarrow> known_paths (knownPathList d)) =
      [path_key (ex_rib 3 0x0A000000) \<mapsto> ex_rib 3 0x0A000000]"
proof -
  let ?ps = "[ex_rib 1 0x0A000000, ex_rib 2 0x0A000100, ex_rib 3 0x0A000000, Clone True (ex_rib 1 0x0A000000)]"
  let ?n = "IPPrefix \<lparr>prefix_addr = Addr4 0x0A000000, prefix_bits = 24\<rparr>"
  define t0 where "t0 = \<lparr>Table_Family = RF_IPv4_UC, destinations = \<lparr>shards = None, mask = 3\<rparr>\<rparr>"
  have new: "newTable ex_hash RF_IPv4_UC 4 [] = Inr t0" by (simp add: newTable_def newDestinations_def t0_def)
  have ok: "run_ok (table_step ex_hash (\<lambda>_. 0) (\<lambda>_. []) (ex_opts False)) (table_input_ok ex_hash) ?ps t0" unfolding t0_def by code_simp
  have plain: "list_all (\<lambda>p. plain_nlri (path_nlri p)) ?ps" "plain_nlri ?n" by code_simp+
  have f: "filter (\<lambda>p. path_nlri p = ?n) ?ps =
      [ex_rib 1 0x0A000000, ex_rib 3 0x0A000000, Clone True (ex_rib 1 0x0A000000)]" by code_simp
  have k: "path_key (ex_rib 1 0x0A000000) \<noteq> path_key (ex_rib 3 0x0A000000)"
      "path_key (Clone True (ex_rib 1 0x0A000000)) = path_key (ex_rib 1 0x0A000000)"
      "set_localID 0 (ex_rib 3 0x0A000000) = ex_rib 3 0x0A000000"
      "\<not> IsWithdraw (layer (ex_rib 1 0x0A000000))" "\<not> IsWithdraw (layer (ex_rib 3 0x0A000000))"
      "IsWithdraw (layer (Clone True (ex_rib 1 0x0A000000)))" by code_simp+
  have "fold calc_spec [ex_rib 1 0x0A000000, ex_rib 3 0x0A000000, Clone True (ex_rib 1 0x0A000000)] Map.empty =
      [path_key (ex_rib 3 0x0A000000) \<mapsto> ex_rib 3 0x0A000000]"
    using k by (auto simp: calc_spec_def fun_eq_iff)
  then show ?thesis
    using Table_refines [OF new ok _ plain] new unfolding f by auto
qed

end
