(* ===== verification/Roa.thy ===== *)
theory Roa
  imports Path
begin

section \<open>Route origin authorisations: \<open>internal/pkg/table/roa.go\<close>\<close>

text \<open>
  The table of ROAs and the origin validation of RFC 6811.

  \<^item> The tree that finds the ROAs covering a prefix is the package \<open>critbitgo\<close>: its operations
    are the record \<open>net_tree\<close>, an argument of the definitions, and what the code relies on
    is the predicate \<open>tree_laws\<close>.
  \<^item> The tree holds pointers to buckets, which the code changes in place. A pointer is an index
    into \<open>buckets\<close>, the buckets allocated so far.
  \<^item> \<open>net.IPNet\<close> is an address, as bytes, and a mask; the masks here are all made by
    \<open>net.CIDRMask\<close>, which returns \<open>nil\<close> for an impossible length.
  \<^item> \<open>sort.Slice\<close> promises no order among equal elements; the model keeps them as they were.
\<close>

subsection \<open>Networks\<close>

record IPNet =
  IP :: bytes
  Mask :: "(nat \<times> nat) option"

definition CIDRMask :: "nat \<Rightarrow> nat \<Rightarrow> (nat \<times> nat) option" where
  "CIDRMask ones bits = (if (bits = 32 \<or> bits = 128) \<and> ones \<le> bits then Some (ones, bits) else None)"

definition Mask_Size :: "IPNet \<Rightarrow> nat" where
  "Mask_Size n = (case Mask n of Some (ones, _) \<Rightarrow> ones | None \<Rightarrow> 0)"

datatype NLRI =
    IPAddrPrefix prefix
  | LabeledIPAddrPrefix prefix
  | LabeledVPNIPAddrPrefix prefix
  | OtherNLRI

fun Masked_Addr :: "addr \<Rightarrow> nat \<Rightarrow> addr" where
  "Masked_Addr AddrNone b = AddrNone"
| "Masked_Addr (Addr4 w) b = Addr4 (push_bit (32 - b) (drop_bit (32 - b) w))"
| "Masked_Addr (Addr6 w z) b = Addr6 (push_bit (128 - b) (drop_bit (128 - b) w)) z"

fun nlriToIPNet :: "NLRI \<Rightarrow> IPNet option" where
  "nlriToIPNet (IPAddrPrefix p) =
     Some \<lparr>IP = AsSlice (prefix_addr p), Mask = CIDRMask (prefix_bits p) (BitLen (prefix_addr p))\<rparr>"
| "nlriToIPNet (LabeledIPAddrPrefix p) =
     Some \<lparr>IP = AsSlice (Masked_Addr (prefix_addr p) (prefix_bits p)),
           Mask = CIDRMask (prefix_bits p) (BitLen (prefix_addr p))\<rparr>"
| "nlriToIPNet (LabeledVPNIPAddrPrefix p) =
     Some \<lparr>IP = AsSlice (prefix_addr p), Mask = CIDRMask (prefix_bits p) (BitLen (prefix_addr p))\<rparr>"
| "nlriToIPNet OtherNLRI = None"

subsection \<open>ROAs and their table\<close>

record ROA =
  roa_Family :: int
  Network :: IPNet
  MaxLen :: u8
  roa_AS :: u32
  Src :: string

abbreviation (input) "AFI_IP \<equiv> (1 :: int)"
abbreviation (input) "AFI_IP6 \<equiv> (2 :: int)"
abbreviation (input) "RF_IPv6_UC \<equiv> (0x20001 :: u32)"

definition NewROA :: "int \<Rightarrow> bytes \<Rightarrow> u8 \<Rightarrow> u8 \<Rightarrow> u32 \<Rightarrow> string \<Rightarrow> ROA" where
  "NewROA fam prefixByte prefixLen maxLen as src =
     (let bits = (if fam = AFI_IP6 then 128 else 32)
      in \<lparr>roa_Family = fam, Network = \<lparr>IP = prefixByte, Mask = CIDRMask (unat prefixLen) bits\<rparr>,
          MaxLen = maxLen, roa_AS = as, Src = src\<rparr>)"

definition ROA_Equal :: "ROA \<Rightarrow> ROA \<Rightarrow> bool" where
  "ROA_Equal r s \<longleftrightarrow> MaxLen r = MaxLen s \<and> Src r = Src s \<and> roa_AS r = roa_AS s"

record roaBucket =
  network :: IPNet
  entries :: "ROA list"

record 't net_tree =
  tree_Get :: "IPNet \<Rightarrow> 't \<Rightarrow> nat option"
  tree_Add :: "IPNet \<Rightarrow> nat \<Rightarrow> 't \<Rightarrow> 't option"
  tree_Delete :: "IPNet \<Rightarrow> 't \<Rightarrow> 't"
  tree_Walk :: "'t \<Rightarrow> (IPNet \<times> nat) list"
  tree_WalkMatch :: "IPNet \<Rightarrow> 't \<Rightarrow> (IPNet \<times> nat) list"

record 't ROATable =
  tree4 :: 't
  tree6 :: 't
  buckets :: "roaBucket list"

definition NewROATable :: "'t \<Rightarrow> 't ROATable" where
  "NewROATable NewNet = \<lparr>tree4 = NewNet, tree6 = NewNet, buckets = []\<rparr>"

definition roa2tree :: "ROA \<Rightarrow> 't ROATable \<Rightarrow> 't" where
  "roa2tree roa rt = (if roa_Family roa = AFI_IP6 then tree6 rt else tree4 rt)"

definition set_tree :: "ROA \<Rightarrow> 't \<Rightarrow> 't ROATable \<Rightarrow> 't ROATable" where
  "set_tree roa t rt = (if roa_Family roa = AFI_IP6 then rt\<lparr>tree6 := t\<rparr> else rt\<lparr>tree4 := t\<rparr>)"

definition getBucket :: "'t net_tree \<Rightarrow> ROA \<Rightarrow> 't ROATable \<Rightarrow> nat \<times> 't ROATable" where
  "getBucket ops roa rt =
     (case tree_Get ops (Network roa) (roa2tree roa rt) of
        Some b \<Rightarrow> (b, rt)
      | None \<Rightarrow>
          let b = length (buckets rt);
              rt1 = rt\<lparr>buckets := buckets rt @ [\<lparr>network = Network roa, entries = []\<rparr>]\<rparr>
          in (b, case tree_Add ops (Network roa) b (roa2tree roa rt) of
                   Some t \<Rightarrow> set_tree roa t rt1
                 | None \<Rightarrow> rt1))"

definition set_entries :: "nat \<Rightarrow> ROA list \<Rightarrow> 't ROATable \<Rightarrow> 't ROATable" where
  "set_entries b es rt = rt\<lparr>buckets := (buckets rt)[b := (buckets rt ! b)\<lparr>entries := es\<rparr>]\<rparr>"

definition roa_Add :: "'t net_tree \<Rightarrow> ROA \<Rightarrow> 't ROATable \<Rightarrow> 't ROATable" where
  "roa_Add ops roa rt =
     (let (b, rt1) = getBucket ops roa rt; es = entries (buckets rt1 ! b)
      in if \<exists>r \<in> set es. ROA_Equal r roa then rt1
         else set_entries b (sort_key (\<lambda>r. (MaxLen r, roa_AS r)) (es @ [roa])) rt1)"

fun remove_first :: "ROA \<Rightarrow> ROA list \<Rightarrow> ROA list" where
  "remove_first roa [] = []"
| "remove_first roa (r # rs) = (if ROA_Equal r roa then rs else r # remove_first roa rs)"

definition roa_Delete :: "'t net_tree \<Rightarrow> ROA \<Rightarrow> 't ROATable \<Rightarrow> 't ROATable" where
  "roa_Delete ops roa rt =
     (case tree_Get ops (Network roa) (roa2tree roa rt) of
        Some b \<Rightarrow> set_entries b (remove_first roa (entries (buckets rt ! b))) rt
      | None \<Rightarrow> rt)"

text \<open>The walk of \<open>DeleteAll\<close> over one tree: the buckets that keep an entry are changed, the
  networks of the others are collected and deleted afterwards.\<close>

fun delete_walk :: "string \<Rightarrow> (IPNet \<times> nat) list \<Rightarrow> IPNet list \<Rightarrow> 't ROATable \<Rightarrow> IPNet list \<times> 't ROATable" where
  "delete_walk src [] deleteNetworks rt = (deleteNetworks, rt)"
| "delete_walk src ((n, b) # ws) deleteNetworks rt =
     (let newEntries = filter (\<lambda>r. Src r \<noteq> src) (entries (buckets rt ! b))
      in if newEntries \<noteq> [] then delete_walk src ws deleteNetworks (set_entries b newEntries rt)
         else delete_walk src ws (deleteNetworks @ [n]) rt)"

definition roa_DeleteAll :: "'t net_tree \<Rightarrow> string \<Rightarrow> 't ROATable \<Rightarrow> 't ROATable" where
  "roa_DeleteAll ops src rt =
     (let (del4, rt1) = delete_walk src (tree_Walk ops (tree4 rt)) [] rt;
          rt2 = rt1\<lparr>tree4 := fold (tree_Delete ops) del4 (tree4 rt1)\<rparr>;
          (del6, rt3) = delete_walk src (tree_Walk ops (tree6 rt2)) [] rt2
      in rt3\<lparr>tree6 := fold (tree_Delete ops) del6 (tree6 rt3)\<rparr>)"

subsection \<open>Validation\<close>

datatype RpkiValidationResultType =
  RPKI_VALIDATION_RESULT_TYPE_NONE | RPKI_VALIDATION_RESULT_TYPE_NOT_FOUND
| RPKI_VALIDATION_RESULT_TYPE_VALID | RPKI_VALIDATION_RESULT_TYPE_INVALID

datatype RpkiValidationReasonType =
  RPKI_VALIDATION_REASON_TYPE_NONE | RPKI_VALIDATION_REASON_TYPE_AS | RPKI_VALIDATION_REASON_TYPE_LENGTH

record Validation =
  Status :: RpkiValidationResultType
  Reason :: RpkiValidationReasonType
  Matched :: "ROA list"
  UnmatchedAs :: "ROA list"
  UnmatchedLength :: "ROA list"

definition origin_as :: "'n path \<Rightarrow> u32" where
  "origin_as p =
     (let ownAs = LocalAS (GetSource p) in
      case GetAsPath p of
        None \<Rightarrow> ownAs
      | Some v \<Rightarrow>
          if v = [] then ownAs
          else let param = last v; t = param_GetType param in
               if t = BGP_ASPATH_ATTR_TYPE_SEQ
               then (if param_GetAS param = [] then ownAs else last (param_GetAS param))
               else if t = BGP_ASPATH_ATTR_TYPE_CONFED_SET \<or> t = BGP_ASPATH_ATTR_TYPE_CONFED_SEQ then ownAs
               else 0)"

definition classify :: "nat \<Rightarrow> u32 \<Rightarrow> Validation \<Rightarrow> ROA \<Rightarrow> Validation" where
  "classify prefixLen as v r =
     (if prefixLen \<le> unat (MaxLen r)
      then if roa_AS r \<noteq> 0 \<and> roa_AS r = as then v\<lparr>Matched := Matched v @ [r]\<rparr>
           else v\<lparr>UnmatchedAs := UnmatchedAs v @ [r]\<rparr>
      else v\<lparr>UnmatchedLength := UnmatchedLength v @ [r]\<rparr>)"

definition conclude :: "Validation \<Rightarrow> Validation" where
  "conclude v =
     (if Matched v \<noteq> [] then v\<lparr>Status := RPKI_VALIDATION_RESULT_TYPE_VALID, Reason := RPKI_VALIDATION_REASON_TYPE_NONE\<rparr>
      else if UnmatchedAs v \<noteq> []
      then v\<lparr>Status := RPKI_VALIDATION_RESULT_TYPE_INVALID, Reason := RPKI_VALIDATION_REASON_TYPE_AS\<rparr>
      else if UnmatchedLength v \<noteq> []
      then v\<lparr>Status := RPKI_VALIDATION_RESULT_TYPE_INVALID, Reason := RPKI_VALIDATION_REASON_TYPE_LENGTH\<rparr>
      else v\<lparr>Status := RPKI_VALIDATION_RESULT_TYPE_NOT_FOUND, Reason := RPKI_VALIDATION_REASON_TYPE_NONE\<rparr>)"

definition family_tree :: "u32 \<Rightarrow> 't ROATable \<Rightarrow> 't option" where
  "family_tree fam rt = (if fam = RF_IPv4_UC then Some (tree4 rt) else if fam = RF_IPv6_UC then Some (tree6 rt) else None)"

definition roa_Validate :: "'t net_tree \<Rightarrow> 't ROATable \<Rightarrow> NLRI path \<Rightarrow> (unit, Validation option) res" where
  "roa_Validate ops rt p =
     (if IsWithdraw (layer p) \<or> IsEOR p then Inr None
      else case family_tree (family (layer p)) rt of
        None \<Rightarrow> Inr None
      | Some tree \<Rightarrow>
          (case nlriToIPNet (nlri (OriginInfo p)) of
             None \<Rightarrow> Inl Panic
           | Some r \<Rightarrow>
               let v0 = \<lparr>Status = RPKI_VALIDATION_RESULT_TYPE_NOT_FOUND, Reason = RPKI_VALIDATION_REASON_TYPE_NONE,
                         Matched = [], UnmatchedAs = [], UnmatchedLength = []\<rparr>;
                   found = concat (map (\<lambda>(n, b). entries (buckets rt ! b)) (tree_WalkMatch ops r tree))
               in Inr (Some (conclude (foldl (classify (Mask_Size r) (origin_as p)) v0 found)))))"

definition roa_Info :: "'t net_tree \<Rightarrow> u32 \<Rightarrow> 't ROATable \<Rightarrow> (string \<Rightarrow> u32) \<times> (string \<Rightarrow> u32)" where
  "roa_Info ops fam rt =
     (case family_tree fam rt of
        None \<Rightarrow> (\<lambda>_. 0, \<lambda>_. 0)
      | Some tree \<Rightarrow>
          let counts = map (\<lambda>(n, b) src. word_of_nat (length (filter (\<lambda>r. Src r = src) (entries (buckets rt ! b)))) :: u32)
                (tree_Walk ops tree)
          in (\<lambda>src. sum_list (map (\<lambda>c. c src) counts),
              \<lambda>src. word_of_nat (length (filter (\<lambda>c. c src > 0) counts))))"

definition roa_List :: "'t net_tree \<Rightarrow> u32 \<Rightarrow> 't ROATable \<Rightarrow> ROA list" where
  "roa_List ops fam rt =
     (let rfList = (if fam = RF_IPv4_UC then [tree4 rt] else if fam = RF_IPv6_UC then [tree6 rt] else [tree4 rt, tree6 rt])
      in concat (map (\<lambda>tree. concat (map (\<lambda>(n, b). entries (buckets rt ! b)) (tree_Walk ops tree))) rfList))"

subsection \<open>What the tree promises\<close>

definition ip_bits :: "bytes \<Rightarrow> bool list" where
  "ip_bits ip = concat (map word_bits ip)"

definition canonical :: "IPNet \<Rightarrow> bool" where
  "canonical n \<longleftrightarrow> (length (IP n) = 4 \<or> length (IP n) = 16) \<and>
     (case Mask n of None \<Rightarrow> False
      | Some (ones, bits) \<Rightarrow> bits = 8 * length (IP n) \<and> ones \<le> bits \<and> \<not> (\<exists>b \<in> set (drop ones (ip_bits (IP n))). b))"

definition covers :: "IPNet \<Rightarrow> IPNet \<Rightarrow> bool" where
  "covers n r \<longleftrightarrow> length (IP n) = length (IP r) \<and> Mask_Size n \<le> Mask_Size r \<and>
     take (Mask_Size n) (ip_bits (IP n)) = take (Mask_Size n) (ip_bits (IP r))"

text \<open>
  What the code relies on, for networks with no bit set behind the mask: it is a map from
  networks to values, \<open>Walk\<close> visits every entry once, and \<open>WalkMatch\<close> those whose network
  covers the given one.
\<close>

definition tree_laws :: "'t net_tree \<Rightarrow> 't \<Rightarrow> bool" where
  "tree_laws ops NewNet \<longleftrightarrow>
     (\<forall>n. tree_Get ops n NewNet = None) \<and>
     (\<forall>n b t. canonical n \<and> tree_Get ops n t = None \<longrightarrow>
        (\<exists>t'. tree_Add ops n b t = Some t' \<and>
           (\<forall>m. canonical m \<longrightarrow> tree_Get ops m t' = (if m = n then Some b else tree_Get ops m t)))) \<and>
     (\<forall>n t m. canonical n \<and> canonical m \<longrightarrow> tree_Get ops m (tree_Delete ops n t) = (if m = n then None else tree_Get ops m t)) \<and>
     (\<forall>t. distinct (map fst (tree_Walk ops t)) \<and>
        (\<forall>n b. (n, b) \<in> set (tree_Walk ops t) \<longleftrightarrow> canonical n \<and> tree_Get ops n t = Some b)) \<and>
     (\<forall>r t. canonical r \<longrightarrow> set (tree_WalkMatch ops r t) = {(n, b) \<in> set (tree_Walk ops t). covers n r})"

lemma tree_lawsD:
  assumes "tree_laws ops NewNet"
  shows "tree_Get ops n NewNet = None"
    and "canonical n \<Longrightarrow> tree_Get ops n t = None \<Longrightarrow> \<exists>t'. tree_Add ops n b t = Some t' \<and>
           (\<forall>m. canonical m \<longrightarrow> tree_Get ops m t' = (if m = n then Some b else tree_Get ops m t))"
    and "canonical n \<Longrightarrow> canonical m \<Longrightarrow> tree_Get ops m (tree_Delete ops n t) = (if m = n then None else tree_Get ops m t)"
    and "distinct (map fst (tree_Walk ops t))"
    and "(n, b) \<in> set (tree_Walk ops t) \<longleftrightarrow> canonical n \<and> tree_Get ops n t = Some b"
    and "canonical r \<Longrightarrow> (n, b) \<in> set (tree_WalkMatch ops r t) \<longleftrightarrow> canonical n \<and> tree_Get ops n t = Some b \<and> covers n r"
  using assms unfolding tree_laws_def by blast+

subsection \<open>The invariant of the table\<close>

definition roa_ok :: "ROA \<Rightarrow> bool" where
  "roa_ok r \<longleftrightarrow> canonical (Network r) \<and>
     (if length (IP (Network r)) = 16 then roa_Family r = AFI_IP6 else roa_Family r = AFI_IP)"

definition tree_of :: "bool \<Rightarrow> 't ROATable \<Rightarrow> 't" where
  "tree_of six rt = (if six then tree6 rt else tree4 rt)"

abbreviation (input) at_net :: "'t net_tree \<Rightarrow> 't ROATable \<Rightarrow> bool \<Rightarrow> IPNet \<Rightarrow> nat \<Rightarrow> bool" where
  "at_net ops rt six n b \<equiv> canonical n \<and> tree_Get ops n (tree_of six rt) = Some b"

definition bucket_ok :: "bool \<Rightarrow> IPNet \<Rightarrow> ROA list \<Rightarrow> bool" where
  "bucket_ok six n es \<longleftrightarrow> distinct es \<and> (\<forall>r \<in> set es. roa_ok r \<and> Network r = n \<and> (roa_Family r = AFI_IP6 \<longleftrightarrow> six))"

definition table_wf :: "'t net_tree \<Rightarrow> 't ROATable \<Rightarrow> bool" where
  "table_wf ops rt \<longleftrightarrow>
     (\<forall>six n b. at_net ops rt six n b \<longrightarrow> b < length (buckets rt) \<and> bucket_ok six n (entries (buckets rt ! b))) \<and>
     (\<forall>six n six' n' b. at_net ops rt six n b \<and> at_net ops rt six' n' b \<longrightarrow> six = six' \<and> n = n')"

definition view_of :: "'t net_tree \<Rightarrow> bool \<Rightarrow> 't ROATable \<Rightarrow> ROA set" where
  "view_of ops six rt = {r. \<exists>n b. at_net ops rt six n b \<and> r \<in> set (entries (buckets rt ! b))}"

definition roa_view :: "'t net_tree \<Rightarrow> 't ROATable \<Rightarrow> ROA set" where
  "roa_view ops rt = view_of ops False rt \<union> view_of ops True rt"

lemma table_wfD:
  assumes "table_wf ops rt" and "at_net ops rt six n b"
  shows "b < length (buckets rt)" "bucket_ok six n (entries (buckets rt ! b))"
    and "at_net ops rt six' n' b \<Longrightarrow> six = six' \<and> n = n'"
  using assms unfolding table_wf_def by blast+

lemma ROA_Equal_iff:
  assumes "roa_ok r" and "roa_ok s" and "Network r = Network s"
  shows "ROA_Equal r s \<longleftrightarrow> r = s"
proof -
  have "roa_Family r = roa_Family s" using assms by (auto simp: roa_ok_def split: if_splits)
  then show ?thesis using assms(3) by (cases r; cases s) (auto simp: ROA_Equal_def)
qed

lemma roa_family_length: "roa_ok r \<Longrightarrow> roa_Family r = AFI_IP6 \<longleftrightarrow> length (IP (Network r)) = 16"
  by (simp add: roa_ok_def split: if_splits)

lemma set_entries_simps [simp]:
  "tree_of six (set_entries b es rt) = tree_of six rt" "length (buckets (set_entries b es rt)) = length (buckets rt)"
  "b < length (buckets rt) \<Longrightarrow> entries (buckets (set_entries b es rt) ! c) = (if c = b then es else entries (buckets rt ! c))"
  by (auto simp: set_entries_def tree_of_def nth_list_update)

lemma table_wfI:
  assumes "\<And>six n b. at_net ops rt six n b \<Longrightarrow> b < length (buckets rt) \<and> bucket_ok six n (entries (buckets rt ! b))"
    and "\<And>six n six' n' b. at_net ops rt six n b \<Longrightarrow> at_net ops rt six' n' b \<Longrightarrow> six = six' \<and> n = n'"
  shows "table_wf ops rt"
  unfolding table_wf_def using assms by blast

lemma view_ofI: "at_net ops rt six n b \<Longrightarrow> r \<in> set (entries (buckets rt ! b)) \<Longrightarrow> r \<in> view_of ops six rt"
  by (auto simp: view_of_def)

lemma view_ofE:
  assumes "r \<in> view_of ops six rt"
  obtains n b where "at_net ops rt six n b" "r \<in> set (entries (buckets rt ! b))"
  using assms by (auto simp: view_of_def)

lemma set_entries_wf:
  assumes "table_wf ops rt" and "at_net ops rt six n b" and "bucket_ok six n es"
  shows "table_wf ops (set_entries b es rt)"
    and "view_of ops six (set_entries b es rt) = view_of ops six rt - set (entries (buckets rt ! b)) \<union> set es"
    and "six' \<noteq> six \<Longrightarrow> view_of ops six' (set_entries b es rt) = view_of ops six' rt"
proof -
  note b = table_wfD [OF assms(1,2)]
  have bucket: "entries (buckets (set_entries b es rt) ! c) = (if c = b then es else entries (buckets rt ! c))" for c
    using b(1) by simp
  show "table_wf ops (set_entries b es rt)"
  proof (rule table_wfI)
    show "c < length (buckets (set_entries b es rt)) \<and> bucket_ok s m (entries (buckets (set_entries b es rt) ! c))"
      if "at_net ops (set_entries b es rt) s m c" for s m c
    proof -
      from that have at: "at_net ops rt s m c" by simp
      show ?thesis
      proof (cases "c = b")
        case True
        then have "six = s \<and> n = m" using at by (intro b(3)) simp
        then show ?thesis using True b(1) assms(3) by (simp add: bucket)
      next
        case False
        then show ?thesis using table_wfD(1,2) [OF assms(1) at] by (simp add: bucket)
      qed
    qed
    show "s = s' \<and> m = m'" if "at_net ops (set_entries b es rt) s m c" "at_net ops (set_entries b es rt) s' m' c" for s m s' m' c
      using that by (intro table_wfD(3) [OF assms(1), of m s c]) simp_all
  qed
  show "view_of ops six (set_entries b es rt) = view_of ops six rt - set (entries (buckets rt ! b)) \<union> set es"
  proof (rule set_eqI)
    fix r
    have "r \<in> view_of ops six (set_entries b es rt) \<longleftrightarrow>
        r \<in> set es \<or> (\<exists>m c. at_net ops rt six m c \<and> c \<noteq> b \<and> r \<in> set (entries (buckets rt ! c)))"
      using assms(2) by (auto simp: view_of_def bucket)
    moreover have "r \<notin> set (entries (buckets rt ! b))" if "at_net ops rt six m c" "c \<noteq> b" "r \<in> set (entries (buckets rt ! c))" for m c
      using that table_wfD(2) [OF assms(1) that(1)] b(2) assms(2) by (auto simp: bucket_ok_def)
    moreover have "r \<in> view_of ops six rt \<longleftrightarrow> r \<in> set (entries (buckets rt ! b)) \<or>
        (\<exists>m c. at_net ops rt six m c \<and> c \<noteq> b \<and> r \<in> set (entries (buckets rt ! c)))"
      using assms(2) by (auto simp: view_of_def)
    ultimately show "r \<in> view_of ops six (set_entries b es rt) \<longleftrightarrow> r \<in> view_of ops six rt - set (entries (buckets rt ! b)) \<union> set es"
      by blast
  qed
  show "view_of ops six' (set_entries b es rt) = view_of ops six' rt" if "six' \<noteq> six"
  proof -
    have "c \<noteq> b" if "at_net ops rt six' m c" for m c using that b(3) [where six' = six' and n' = m] \<open>six' \<noteq> six\<close> by blast
    then show ?thesis by (auto simp: view_of_def bucket)
  qed
qed

subsection \<open>The operations on the table\<close>

abbreviation (input) six_of :: "ROA \<Rightarrow> bool" where
  "six_of roa \<equiv> roa_Family roa = AFI_IP6"

lemma roa2tree_tree_of: "roa2tree roa rt = tree_of (six_of roa) rt"
  by (simp add: roa2tree_def tree_of_def)

lemma roa_okD: "roa_ok r \<Longrightarrow> canonical (Network r)"
  by (simp add: roa_ok_def)

lemma tree_of_set_tree: "tree_of six (set_tree roa t rt) = (if six = six_of roa then t else tree_of six rt)"
  by (auto simp: set_tree_def tree_of_def)

lemma tree_of_buckets [simp]: "tree_of six (rt\<lparr>buckets := bs\<rparr>) = tree_of six rt"
  by (simp add: tree_of_def)

lemma set_tree_buckets [simp]: "buckets (set_tree roa t rt) = buckets rt"
  by (simp add: set_tree_def)

lemma getBucket_spec:
  assumes "tree_laws ops NewNet" and "table_wf ops rt" and "roa_ok roa"
  shows "\<exists>b rt1. getBucket ops roa rt = (b, rt1) \<and> table_wf ops rt1 \<and> at_net ops rt1 (six_of roa) (Network roa) b \<and>
    (\<forall>six. view_of ops six rt1 = view_of ops six rt)"
proof (cases "tree_Get ops (Network roa) (tree_of (six_of roa) rt)")
  case (Some b)
  then show ?thesis using assms(2) roa_okD [OF assms(3)] by (simp add: getBucket_def roa2tree_tree_of)
next
  case None
  define b where "b = length (buckets rt)"
  obtain t where t: "tree_Add ops (Network roa) b (tree_of (six_of roa) rt) = Some t"
      "\<And>m. canonical m \<Longrightarrow> tree_Get ops m t = (if m = Network roa then Some b else tree_Get ops m (tree_of (six_of roa) rt))"
    using tree_lawsD(2) [OF assms(1) roa_okD [OF assms(3)] None, of b] by (elim exE conjE) simp
  define rt1 where "rt1 = set_tree roa t (rt\<lparr>buckets := buckets rt @ [\<lparr>network = Network roa, entries = []\<rparr>]\<rparr>)"
  have g: "getBucket ops roa rt = (b, rt1)"
    using None t(1) by (simp add: getBucket_def roa2tree_tree_of rt1_def b_def)
  have len: "length (buckets rt1) = Suc b" by (simp add: rt1_def b_def)
  have ent: "entries (buckets rt1 ! c) = (if c = b then [] else entries (buckets rt ! c))" if "c \<le> b" for c
    using that by (simp add: rt1_def b_def nth_append)
  have at: "at_net ops rt1 six m c \<longleftrightarrow> six = six_of roa \<and> m = Network roa \<and> c = b \<or>
      at_net ops rt six m c" for six m c
  proof (cases "six = six_of roa \<and> canonical m")
    case True
    then have "tree_of six rt1 = t" by (simp add: rt1_def tree_of_set_tree)
    then show ?thesis using True t(2) [of m] None by auto
  next
    case False
    then show ?thesis using roa_okD [OF assms(3)] by (auto simp: rt1_def tree_of_set_tree)
  qed
  have old: "c < b" if "at_net ops rt six m c" for six m c using table_wfD(1) [OF assms(2) that] by (simp add: b_def)
  have "table_wf ops rt1"
  proof (rule table_wfI)
    show "c < length (buckets rt1) \<and> bucket_ok six m (entries (buckets rt1 ! c))" if "at_net ops rt1 six m c" for six m c
    proof (cases "c = b")
      case True
      then show ?thesis using len ent [of b] by (simp add: bucket_ok_def)
    next
      case False
      then have a: "at_net ops rt six m c" using that at [of m six c] by simp
      then show ?thesis using old [OF a] len ent [of c] table_wfD(2) [OF assms(2) a] by simp
    qed
    show "six = six' \<and> m = m'" if "at_net ops rt1 six m c" "at_net ops rt1 six' m' c" for six m six' m' c
    proof (cases "c = b")
      case True
      then have "\<not> at_net ops rt six m c" "\<not> at_net ops rt six' m' c"
        using old [of m six c] old [of m' six' c] by auto
      then show ?thesis using that at [of m six c] at [of m' six' c] by simp
    next
      case False
      then have "at_net ops rt six m c" "at_net ops rt six' m' c"
        using that at [of m six c] at [of m' six' c] by simp_all
      then show ?thesis by (rule table_wfD(3) [OF assms(2)])
    qed
  qed
  moreover have "view_of ops six rt1 = view_of ops six rt" for six
  proof (rule set_eqI)
    fix r
    have same: "r \<in> set (entries (buckets rt1 ! c)) \<longleftrightarrow> r \<in> set (entries (buckets rt ! c))"
      if "at_net ops rt six m c" for m c
      using old [OF that] ent [of c] by simp
    have none: "r \<notin> set (entries (buckets rt1 ! b))" using ent [of b] by simp
    show "r \<in> view_of ops six rt1 \<longleftrightarrow> r \<in> view_of ops six rt"
    proof
      assume "r \<in> view_of ops six rt1"
      then obtain m c where c: "at_net ops rt1 six m c" "r \<in> set (entries (buckets rt1 ! c))" by (rule view_ofE)
      then have "c \<noteq> b" using none by auto
      then have a: "at_net ops rt six m c" using at [of m six c] c(1) by simp
      then show "r \<in> view_of ops six rt" using same [OF a] c(2) by (intro view_ofI [OF a]) simp
    next
      assume "r \<in> view_of ops six rt"
      then obtain m c where c: "at_net ops rt six m c" "r \<in> set (entries (buckets rt ! c))" by (rule view_ofE)
      then have "at_net ops rt1 six m c" using at [of m six c] by simp
      then show "r \<in> view_of ops six rt1" using same [OF c(1)] c(2) by (intro view_ofI) simp_all
    qed
  qed
  moreover have "at_net ops rt1 (six_of roa) (Network roa) b" using at [of "Network roa" "six_of roa" b] by simp
  ultimately show ?thesis using g by blast
qed

lemma roa_view_cases: "roa_view ops rt = view_of ops six rt \<union> view_of ops (\<not> six) rt"
  by (cases six) (auto simp: roa_view_def)

lemma view_of_ok: "table_wf ops rt \<Longrightarrow> r \<in> view_of ops six rt \<Longrightarrow> roa_ok r \<and> six_of r = six"
  by (elim view_ofE) (auto dest: table_wfD(2) simp: bucket_ok_def)

lemma in_bucket_iff:
  assumes "table_wf ops rt" and "at_net ops rt six (Network r) b"
  shows "r \<in> set (entries (buckets rt ! b)) \<longleftrightarrow> r \<in> view_of ops six rt"
proof
  assume "r \<in> view_of ops six rt"
  then obtain n c where c: "at_net ops rt six n c" "r \<in> set (entries (buckets rt ! c))" by (rule view_ofE)
  then have "Network r = n" using table_wfD(2) [OF assms(1) c(1)] by (simp add: bucket_ok_def)
  then show "r \<in> set (entries (buckets rt ! b))" using c assms(2) by simp
qed (rule view_ofI [OF assms(2)])

lemma roa_Add_spec:
  assumes "tree_laws ops NewNet" and "table_wf ops rt" and "roa_ok roa"
  shows "table_wf ops (roa_Add ops roa rt) \<and> roa_view ops (roa_Add ops roa rt) = insert roa (roa_view ops rt)"
proof -
  let ?six = "six_of roa"
  obtain b rt1 where g: "getBucket ops roa rt = (b, rt1)" "table_wf ops rt1" "at_net ops rt1 ?six (Network roa) b"
      "\<forall>six. view_of ops six rt1 = view_of ops six rt"
    using getBucket_spec [OF assms] by blast
  define es where "es = entries (buckets rt1 ! b)"
  have ok: "bucket_ok ?six (Network roa) es" using table_wfD(2) [OF g(2,3)] by (simp add: es_def)
  have eq: "ROA_Equal r roa \<longleftrightarrow> r = roa" if "r \<in> set es" for r
    using that ok assms(3) by (intro ROA_Equal_iff) (auto simp: bucket_ok_def)
  have view: "roa_view ops rt = roa_view ops rt1" using g(4) by (simp add: roa_view_def)
  show ?thesis
  proof (cases "roa \<in> set es")
    case True
    then have "roa_Add ops roa rt = rt1" using eq by (auto simp: roa_Add_def g(1) es_def)
    moreover have "roa \<in> roa_view ops rt1" using True in_bucket_iff [OF g(2,3)] roa_view_cases [of ops rt1 ?six] by (simp add: es_def)
    ultimately show ?thesis using g(2) view by auto
  next
    case False
    let ?es = "sort_key (\<lambda>r. (MaxLen r, roa_AS r)) (es @ [roa])"
    have "roa_Add ops roa rt = set_entries b ?es rt1"
      using False eq by (auto simp: roa_Add_def g(1) es_def)
    moreover have "bucket_ok ?six (Network roa) ?es"
      using ok False assms(3) by (simp only: bucket_ok_def distinct_sort set_sort) (simp add: bucket_ok_def)
    note w = set_entries_wf [OF g(2,3) this]
    moreover have "roa_view ops (set_entries b ?es rt1) = insert roa (roa_view ops rt1)"
    proof -
      have "set es \<subseteq> view_of ops ?six rt1" using view_ofI [OF g(3)] by (auto simp: es_def)
      then show ?thesis using w(2) w(3) [of "\<not> ?six"] roa_view_cases [of ops _ ?six] by (auto simp flip: es_def)
    qed
    ultimately show ?thesis using view by simp
  qed
qed

lemma remove_first_filter:
  assumes "distinct es" and "\<And>r. r \<in> set es \<Longrightarrow> ROA_Equal r roa \<longleftrightarrow> r = roa"
  shows "remove_first roa es = filter (\<lambda>r. r \<noteq> roa) es"
  using assms
proof (induction es)
  case (Cons r es)
  then show ?case by (auto intro!: filter_True [symmetric])
qed simp

lemma roa_Delete_spec:
  assumes "tree_laws ops NewNet" and "table_wf ops rt" and "roa_ok roa"
  shows "table_wf ops (roa_Delete ops roa rt) \<and> roa_view ops (roa_Delete ops roa rt) = roa_view ops rt - {roa}"
proof (cases "tree_Get ops (Network roa) (tree_of (six_of roa) rt)")
  case None
  have "roa \<notin> view_of ops six rt" for six
  proof
    assume roa: "roa \<in> view_of ops six rt"
    then obtain n c where c: "at_net ops rt six n c" "roa \<in> set (entries (buckets rt ! c))" by (rule view_ofE)
    moreover have "n = Network roa" "six = six_of roa"
      using table_wfD(2) [OF assms(2) c(1)] c(2) view_of_ok [OF assms(2) roa] by (auto simp: bucket_ok_def)
    ultimately show False using None by simp
  qed
  then show ?thesis using None assms(2) by (simp add: roa_Delete_def roa2tree_tree_of roa_view_def)
next
  case (Some b)
  let ?six = "six_of roa"
  define es where "es = entries (buckets rt ! b)"
  have at: "at_net ops rt ?six (Network roa) b" using Some roa_okD [OF assms(3)] by simp
  have ok: "bucket_ok ?six (Network roa) es" using table_wfD(2) [OF assms(2) at] by (simp add: es_def)
  have "remove_first roa es = filter (\<lambda>r. r \<noteq> roa) es"
    using ok assms(3) by (intro remove_first_filter ROA_Equal_iff) (auto simp: bucket_ok_def)
  then have d: "roa_Delete ops roa rt = set_entries b (filter (\<lambda>r. r \<noteq> roa) es) rt"
    using Some by (simp add: roa_Delete_def roa2tree_tree_of es_def)
  have "bucket_ok ?six (Network roa) (filter (\<lambda>r. r \<noteq> roa) es)" using ok by (simp add: bucket_ok_def)
  note w = set_entries_wf [OF assms(2) at this]
  have "set es \<subseteq> view_of ops ?six rt" using view_ofI [OF at] by (auto simp: es_def)
  moreover have "roa \<in> view_of ops ?six rt \<longrightarrow> roa \<in> set es" using in_bucket_iff [OF assms(2) at] by (simp add: es_def)
  moreover have "roa \<notin> view_of ops (\<not> ?six) rt" using view_of_ok [OF assms(2)] by blast
  ultimately show ?thesis
    using w(1,2) w(3) [of "\<not> ?six"] roa_view_cases [of ops _ ?six] unfolding d by (auto simp flip: es_def)
qed

definition kept :: "string \<Rightarrow> 't ROATable \<Rightarrow> nat \<Rightarrow> ROA list" where
  "kept src rt b = filter (\<lambda>r. Src r \<noteq> src) (entries (buckets rt ! b))"

lemma delete_walk_spec:
  assumes "distinct (map snd ws)" and "\<forall>w \<in> set ws. snd w < length (buckets rt)"
  shows "\<exists>rt1. delete_walk src ws ds rt = (ds @ map fst (filter (\<lambda>(n, b). kept src rt b = []) ws), rt1) \<and>
    (\<forall>six. tree_of six rt1 = tree_of six rt) \<and> length (buckets rt1) = length (buckets rt) \<and>
    (\<forall>c. entries (buckets rt1 ! c) = (if c \<in> snd ` set ws \<and> kept src rt c \<noteq> [] then kept src rt c else entries (buckets rt ! c)))"
  using assms unfolding kept_def
proof (induction ws arbitrary: ds rt)
  case (Cons w ws)
  obtain n b where w: "w = (n, b)" by (cases w)
  have b: "b < length (buckets rt)" "b \<notin> snd ` set ws" using Cons.prems w by auto
  let ?es = "filter (\<lambda>r. Src r \<noteq> src) (entries (buckets rt ! b))"
  show ?case
  proof (cases "?es = []")
    case True
    have IH: "distinct (map snd ws)" "\<forall>w \<in> set ws. snd w < length (buckets rt)"
      using Cons.prems by (auto simp: w)
    obtain rt1 where "delete_walk src ws (ds @ [n]) rt =
          ((ds @ [n]) @ map fst (filter (\<lambda>(n, b). filter (\<lambda>r. Src r \<noteq> src) (entries (buckets rt ! b)) = []) ws), rt1)"
        "\<forall>six. tree_of six rt1 = tree_of six rt" "length (buckets rt1) = length (buckets rt)"
        "\<forall>c. entries (buckets rt1 ! c) = (if c \<in> snd ` set ws \<and> filter (\<lambda>r. Src r \<noteq> src) (entries (buckets rt ! c)) \<noteq> []
           then filter (\<lambda>r. Src r \<noteq> src) (entries (buckets rt ! c)) else entries (buckets rt ! c))"
      using Cons.IH [where ds = "ds @ [n]", OF IH] by (elim exE conjE) simp
    then show ?thesis using True by (intro exI [of _ rt1]) (auto simp: w)
  next
    case False
    let ?rt = "set_entries b ?es rt"
    have same: "entries (buckets ?rt ! c) = entries (buckets rt ! c)" if "c \<in> snd ` set ws" for c
      using that b by auto
    then have "filter (\<lambda>(n, c). filter (\<lambda>r. Src r \<noteq> src) (entries (buckets ?rt ! c)) = []) ws =
        filter (\<lambda>(n, c). filter (\<lambda>r. Src r \<noteq> src) (entries (buckets rt ! c)) = []) ws"
      by (intro filter_cong) force+
    moreover have IH: "distinct (map snd ws)" "\<forall>w \<in> set ws. snd w < length (buckets ?rt)"
      using Cons.prems by (auto simp: w)
    then obtain rt1 where "delete_walk src ws ds ?rt =
          (ds @ map fst (filter (\<lambda>(n, b). filter (\<lambda>r. Src r \<noteq> src) (entries (buckets ?rt ! b)) = []) ws), rt1)"
        "\<forall>six. tree_of six rt1 = tree_of six ?rt" "length (buckets rt1) = length (buckets ?rt)"
        "\<forall>c. entries (buckets rt1 ! c) = (if c \<in> snd ` set ws \<and> filter (\<lambda>r. Src r \<noteq> src) (entries (buckets ?rt ! c)) \<noteq> []
           then filter (\<lambda>r. Src r \<noteq> src) (entries (buckets ?rt ! c)) else entries (buckets ?rt ! c))"
      using Cons.IH [where ds = ds, OF IH] by (elim exE conjE) simp
    ultimately show ?thesis using False b by (intro exI [of _ rt1]) (auto simp: w)
  qed
qed auto

lemma fold_tree_Delete:
  assumes "tree_laws ops NewNet" and "\<And>n. n \<in> set ds \<Longrightarrow> canonical n" and "canonical m"
  shows "tree_Get ops m (fold (tree_Delete ops) ds t) = (if m \<in> set ds then None else tree_Get ops m t)"
  using assms(2) by (induction ds arbitrary: t) (auto simp: tree_lawsD(3) [OF assms(1) _ assms(3)])

lemma table_wf_shrink:
  assumes "table_wf ops rt" and "\<And>six n b. at_net ops rt' six n b \<Longrightarrow> at_net ops rt six n b"
    and "length (buckets rt') = length (buckets rt)"
    and "\<And>six n b. at_net ops rt' six n b \<Longrightarrow> \<exists>P. entries (buckets rt' ! b) = filter P (entries (buckets rt ! b))"
  shows "table_wf ops rt'"
proof (rule table_wfI)
  fix six n b assume at: "at_net ops rt' six n b"
  obtain P where "entries (buckets rt' ! b) = filter P (entries (buckets rt ! b))" using assms(4) [OF at] by blast
  then show "b < length (buckets rt') \<and> bucket_ok six n (entries (buckets rt' ! b))"
    using table_wfD(1,2) [OF assms(1) assms(2) [OF at]] assms(3) by (simp add: bucket_ok_def)
next
  fix six n six' n' b assume at: "at_net ops rt' six n b" "at_net ops rt' six' n' b"
  show "six = six' \<and> n = n'" by (rule table_wfD(3) [OF assms(1) assms(2) [OF at(1)] assms(2) [OF at(2)]])
qed

lemma delete_tree_spec:
  assumes "tree_laws ops NewNet" and "table_wf ops rt"
    and "delete_walk src (tree_Walk ops (tree_of six rt)) [] rt = (ds, rt1)"
    and "tree_of six rt2 = fold (tree_Delete ops) ds (tree_of six rt1)" "tree_of (\<not> six) rt2 = tree_of (\<not> six) rt1"
    and "buckets rt2 = buckets rt1"
  shows "table_wf ops rt2" "view_of ops six rt2 = {r \<in> view_of ops six rt. Src r \<noteq> src}"
    and "view_of ops (\<not> six) rt2 = view_of ops (\<not> six) rt"
proof -
  let ?ws = "tree_Walk ops (tree_of six rt)"
  note walk = tree_lawsD(5) [OF assms(1), of _ _ "tree_of six rt"]
  have b: "\<forall>w \<in> set ?ws. snd w < length (buckets rt)"
    using table_wfD(1) [OF assms(2)] by (auto simp: walk)
  have dist: "distinct (map snd ?ws)"
    unfolding distinct_map
  proof (intro conjI inj_onI)
    show "distinct ?ws" using tree_lawsD(4) [OF assms(1)] by (simp add: distinct_map)
    fix x y assume "x \<in> set ?ws" "y \<in> set ?ws" "snd x = snd y"
    moreover from this have "(fst x, snd x) \<in> set ?ws" "(fst y, snd x) \<in> set ?ws" by (metis prod.collapse)+
    moreover define b where "b = snd x"
    ultimately have "at_net ops rt six (fst x) b" "at_net ops rt six (fst y) b" "snd x = b" "snd y = b"
      by (simp_all only: walk)
    then show "x = y" using table_wfD(3) [OF assms(2), where six = six and n = "fst x" and b = b and six' = six and n' = "fst y"] by (simp add: prod_eq_iff)
  qed
  obtain rt1' where d: "delete_walk src ?ws [] rt = ([] @ map fst (filter (\<lambda>(n, b). kept src rt b = []) ?ws), rt1')"
      "\<forall>six. tree_of six rt1' = tree_of six rt" "length (buckets rt1') = length (buckets rt)"
      "\<forall>c. entries (buckets rt1' ! c) = (if c \<in> snd ` set ?ws \<and> kept src rt c \<noteq> [] then kept src rt c else entries (buckets rt ! c))"
    using delete_walk_spec [OF dist b, of src "[]"] by (elim exE conjE) simp
  then have rt1: "rt1' = rt1" and ds: "ds = map fst (filter (\<lambda>(n, b). kept src rt b = []) ?ws)" using assms(3) by simp_all
  have in_ds: "n \<in> set ds \<longleftrightarrow> (\<exists>b. at_net ops rt six n b \<and> kept src rt b = [])" for n
    unfolding ds by (force simp: walk)
  have get: "tree_Get ops n (tree_of six rt2) = (if n \<in> set ds then None else tree_Get ops n (tree_of six rt))"
    if "canonical n" for n
    unfolding assms(4) using d(2) fold_tree_Delete [OF assms(1) _ that, of ds] in_ds by (simp add: rt1)
  have at: "at_net ops rt2 six n b \<longleftrightarrow> at_net ops rt six n b \<and> kept src rt b \<noteq> []" for n b
    using get [of n] in_ds [of n] by auto
  have at': "at_net ops rt2 (\<not> six) n b \<longleftrightarrow> at_net ops rt (\<not> six) n b" for n b
    using assms(5) d(2) by (simp add: rt1)
  have ent: "entries (buckets rt2 ! b) = kept src rt b" if "at_net ops rt2 six n b" for n b
  proof -
    have a: "at_net ops rt six n b" "kept src rt b \<noteq> []" using that at by simp_all
    then have "b \<in> snd ` set ?ws" using walk [of n b] by (force simp: image_iff)
    then show ?thesis using a d(4) assms(6) by (simp add: rt1)
  qed
  have ent': "entries (buckets rt2 ! b) = entries (buckets rt ! b)" if a: "at_net ops rt (\<not> six) n b" for n b
  proof -
    have "b \<notin> snd ` set ?ws"
    proof
      assume "b \<in> snd ` set ?ws"
      then obtain m where "at_net ops rt six m b" by (auto simp: walk)
      from table_wfD(3) [OF assms(2) this a] show False by simp
    qed
    then show ?thesis using d(4) assms(6) by (simp add: rt1)
  qed
  show "table_wf ops rt2"
  proof (rule table_wf_shrink [OF assms(2)])
    fix s n b assume a: "at_net ops rt2 s n b"
    have s: "s \<noteq> six \<Longrightarrow> s = (\<not> six)" by simp
    show "at_net ops rt s n b" using a at [of n b] at' [of n b] s by (cases "s = six") simp_all
    show "\<exists>P. entries (buckets rt2 ! b) = filter P (entries (buckets rt ! b))"
    proof (cases "s = six")
      case True
      then have "entries (buckets rt2 ! b) = kept src rt b" using ent a by simp
      then show ?thesis by (intro exI [of _ "\<lambda>r. Src r \<noteq> src"]) (simp add: kept_def)
    next
      case False
      then have e: "s = (\<not> six)" by simp
      have "at_net ops rt (\<not> six) n b" using a at' [of n b] unfolding e by blast
      from ent' [OF this] show ?thesis by (intro exI [of _ "\<lambda>_. True"]) simp
    qed
  qed (simp add: assms(6) d(3) flip: rt1)
  show "view_of ops six rt2 = {r \<in> view_of ops six rt. Src r \<noteq> src}"
  proof (intro set_eqI iffI)
    fix r assume "r \<in> view_of ops six rt2"
    then obtain n b where a: "at_net ops rt2 six n b" "r \<in> set (entries (buckets rt2 ! b))" by (rule view_ofE)
    then have "r \<in> set (entries (buckets rt ! b))" "Src r \<noteq> src" using ent [OF a(1)] by (simp_all add: kept_def)
    then show "r \<in> {r \<in> view_of ops six rt. Src r \<noteq> src}" using view_ofI [of n ops six rt b r] a(1) at by simp
  next
    fix r assume r: "r \<in> {r \<in> view_of ops six rt. Src r \<noteq> src}"
    then obtain n b where a: "at_net ops rt six n b" "r \<in> set (entries (buckets rt ! b))" by (auto elim: view_ofE)
    then have k: "r \<in> set (kept src rt b)" using r by (simp add: kept_def)
    then have "at_net ops rt2 six n b" using a(1) unfolding at by auto
    then show "r \<in> view_of ops six rt2" using view_ofI [of n ops six rt2 b r] ent [of n b] k by simp
  qed
  show "view_of ops (\<not> six) rt2 = view_of ops (\<not> six) rt"
  proof (intro set_eqI iffI)
    fix r assume "r \<in> view_of ops (\<not> six) rt2"
    then obtain n b where a: "at_net ops rt2 (\<not> six) n b" "r \<in> set (entries (buckets rt2 ! b))" by (rule view_ofE)
    then show "r \<in> view_of ops (\<not> six) rt" using view_ofI [of n ops "\<not> six" rt b r] at' [of n b] ent' [of n b] by simp
  next
    fix r assume "r \<in> view_of ops (\<not> six) rt"
    then obtain n b where a: "at_net ops rt (\<not> six) n b" "r \<in> set (entries (buckets rt ! b))" by (rule view_ofE)
    then show "r \<in> view_of ops (\<not> six) rt2" using view_ofI [of n ops "\<not> six" rt2 b r] at' [of n b] ent' [of n b] by simp
  qed
qed

lemma roa_DeleteAll_spec:
  assumes "tree_laws ops NewNet" and "table_wf ops rt"
  shows "table_wf ops (roa_DeleteAll ops src rt) \<and>
    roa_view ops (roa_DeleteAll ops src rt) = {r \<in> roa_view ops rt. Src r \<noteq> src}"
proof -
  obtain del4 rt1 where w4: "delete_walk src (tree_Walk ops (tree4 rt)) [] rt = (del4, rt1)" by fastforce
  define rt2 where "rt2 = rt1\<lparr>tree4 := fold (tree_Delete ops) del4 (tree4 rt1)\<rparr>"
  obtain del6 rt3 where w6: "delete_walk src (tree_Walk ops (tree6 rt2)) [] rt2 = (del6, rt3)" by fastforce
  define rt4 where "rt4 = rt3\<lparr>tree6 := fold (tree_Delete ops) del6 (tree6 rt3)\<rparr>"
  have d: "roa_DeleteAll ops src rt = rt4" using w6 by (simp add: roa_DeleteAll_def w4 rt2_def rt4_def)
  note first = delete_tree_spec [OF assms, of src False del4 rt1 rt2]
  note second = delete_tree_spec [OF assms(1) first(1), of src True del6 rt3 rt4]
  show ?thesis
    using first second w4 w6 unfolding d by (auto simp: tree_of_def rt2_def rt4_def roa_view_def)
qed

subsection \<open>The table as a set of ROAs\<close>

datatype roa_op = AddROA ROA | DeleteROA ROA | DeleteAllROA string

fun roa_step :: "'t net_tree \<Rightarrow> roa_op \<Rightarrow> 't ROATable \<Rightarrow> (unit, 't ROATable) res" where
  "roa_step ops (AddROA r) rt = Inr (roa_Add ops r rt)"
| "roa_step ops (DeleteROA r) rt = Inr (roa_Delete ops r rt)"
| "roa_step ops (DeleteAllROA src) rt = Inr (roa_DeleteAll ops src rt)"

fun roa_op_ok :: "roa_op \<Rightarrow> bool" where
  "roa_op_ok (AddROA r) = roa_ok r"
| "roa_op_ok (DeleteROA r) = roa_ok r"
| "roa_op_ok (DeleteAllROA src) = True"

fun roa_spec :: "roa_op \<Rightarrow> ROA set \<Rightarrow> ROA set" where
  "roa_spec (AddROA r) S = insert r S"
| "roa_spec (DeleteROA r) S = S - {r}"
| "roa_spec (DeleteAllROA src) S = {r \<in> S. Src r \<noteq> src}"

interpretation roa_store: refined_store "roa_step ops" "\<lambda>i _. roa_op_ok i" "\<lambda>rt. tree_laws ops NewNet \<and> table_wf ops rt"
  "roa_view ops" roa_spec "\<lambda>_. N" for ops :: "'t net_tree" and NewNet N
proof
  fix i and rt :: "'t ROATable"
  assume "roa_op_ok i" and "tree_laws ops NewNet \<and> table_wf ops rt"
  then have "\<exists>rt'. roa_step ops i rt = Inr rt' \<and> table_wf ops rt' \<and> roa_view ops rt' = roa_spec i (roa_view ops rt)"
    using roa_Add_spec roa_Delete_spec roa_DeleteAll_spec by (cases i) fastforce+
  then show "\<exists>rt'. roa_step ops i rt = Inr rt' \<and> (tree_laws ops NewNet \<and> table_wf ops rt') \<and>
      roa_view ops rt' = roa_spec i (roa_view ops rt) \<and> N \<le> N + 1"
    using \<open>tree_laws ops NewNet \<and> table_wf ops rt\<close> by auto
qed

lemma NewROATable_spec:
  "tree_laws ops NewNet \<Longrightarrow> table_wf ops (NewROATable NewNet) \<and> roa_view ops (NewROATable NewNet) = {}"
  by (simp add: table_wf_def roa_view_def view_of_def NewROATable_def tree_of_def tree_lawsD(1))

lemma roa_history:
  assumes "tree_laws ops NewNet" and "list_all roa_op_ok is"
  shows "\<exists>rt. run_steps (roa_step ops) is (NewROATable NewNet) = Inr rt \<and> table_wf ops rt \<and>
    roa_view ops rt = fold roa_spec is {}"
  using roa_store.run_refines [OF run_ok_all [OF assms(2)], of ops NewNet "NewROATable NewNet" "length is"]
    NewROATable_spec [OF assms(1)] assms(1) by auto

subsection \<open>The outcome of a validation\<close>

definition matching :: "nat \<Rightarrow> u32 \<Rightarrow> ROA \<Rightarrow> bool" where
  "matching len as r \<longleftrightarrow> len \<le> unat (MaxLen r) \<and> roa_AS r \<noteq> 0 \<and> roa_AS r = as"

lemma foldl_classify:
  "foldl (classify len as) v rs =
     v\<lparr>Matched := Matched v @ filter (matching len as) rs,
       UnmatchedAs := UnmatchedAs v @ filter (\<lambda>r. len \<le> unat (MaxLen r) \<and> \<not> matching len as r) rs,
       UnmatchedLength := UnmatchedLength v @ filter (\<lambda>r. \<not> len \<le> unat (MaxLen r)) rs\<rparr>"
  by (induction rs arbitrary: v) (auto simp: classify_def matching_def)

lemma conclude_simps [simp]:
  "Matched (conclude v) = Matched v" "UnmatchedAs (conclude v) = UnmatchedAs v"
  "UnmatchedLength (conclude v) = UnmatchedLength v"
  "Status (conclude v) =
     (if Matched v \<noteq> [] then RPKI_VALIDATION_RESULT_TYPE_VALID
      else if UnmatchedAs v = [] \<and> UnmatchedLength v = [] then RPKI_VALIDATION_RESULT_TYPE_NOT_FOUND
      else RPKI_VALIDATION_RESULT_TYPE_INVALID)"
  "Reason (conclude v) =
     (if Matched v \<noteq> [] then RPKI_VALIDATION_REASON_TYPE_NONE
      else if UnmatchedAs v \<noteq> [] then RPKI_VALIDATION_REASON_TYPE_AS
      else if UnmatchedLength v \<noteq> [] then RPKI_VALIDATION_REASON_TYPE_LENGTH
      else RPKI_VALIDATION_REASON_TYPE_NONE)"
  by (simp_all add: conclude_def)

definition found_by :: "'t net_tree \<Rightarrow> 't ROATable \<Rightarrow> bool \<Rightarrow> IPNet \<Rightarrow> ROA list" where
  "found_by ops rt six r = concat (map (\<lambda>(n, b). entries (buckets rt ! b)) (tree_WalkMatch ops r (tree_of six rt)))"

lemma found_by_set:
  assumes "tree_laws ops NewNet" and "table_wf ops rt" and "canonical r" and "length (IP r) = 16 \<longleftrightarrow> six"
  shows "set (found_by ops rt six r) = {s \<in> roa_view ops rt. covers (Network s) r}"
proof (intro set_eqI iffI)
  fix s assume "s \<in> set (found_by ops rt six r)"
  then obtain n b where nb: "(n, b) \<in> set (tree_WalkMatch ops r (tree_of six rt))" "s \<in> set (entries (buckets rt ! b))"
    by (auto simp: found_by_def)
  then have at: "at_net ops rt six n b" "covers n r" using tree_lawsD(6) [OF assms(1,3)] by simp_all
  then have "Network s = n" using table_wfD(2) [OF assms(2) at(1)] nb(2) by (simp add: bucket_ok_def)
  then show "s \<in> {s \<in> roa_view ops rt. covers (Network s) r}"
    using view_ofI [OF at(1) nb(2)] at(2) roa_view_cases [of ops rt six] by simp
next
  fix s assume s: "s \<in> {s \<in> roa_view ops rt. covers (Network s) r}"
  then obtain six' where six': "s \<in> view_of ops six' rt" by (auto simp: roa_view_def)
  then obtain n b where at: "at_net ops rt six' n b" "s \<in> set (entries (buckets rt ! b))" by (rule view_ofE)
  then have n: "Network s = n" using table_wfD(2) [OF assms(2) at(1)] by (simp add: bucket_ok_def)
  have "six' = six" using view_of_ok [OF assms(2) six'] roa_family_length s assms(4) by (auto simp: covers_def)
  then have "(n, b) \<in> set (tree_WalkMatch ops r (tree_of six rt))"
    using tree_lawsD(6) [OF assms(1,3)] at(1) s n by simp
  then show "s \<in> set (found_by ops rt six r)" using at(2) by (force simp: found_by_def)
qed

lemma roa_List_set:
  assumes "tree_laws ops NewNet" and "table_wf ops rt"
  shows "set (roa_List ops 0 rt) = roa_view ops rt"
    and "set (roa_List ops RF_IPv4_UC rt) = view_of ops False rt" "set (roa_List ops RF_IPv6_UC rt) = view_of ops True rt"
proof -
  have tree: "set (concat (map (\<lambda>(n, b). entries (buckets rt ! b)) (tree_Walk ops (tree_of six rt)))) = view_of ops six rt" for six
    using tree_lawsD(5) [OF assms(1)] by (auto simp: view_of_def)
  then show "set (roa_List ops 0 rt) = roa_view ops rt"
    "set (roa_List ops RF_IPv4_UC rt) = view_of ops False rt" "set (roa_List ops RF_IPv6_UC rt) = view_of ops True rt"
    using tree [of False] tree [of True] by (simp_all add: roa_List_def roa_view_def tree_of_def)
qed

lemma roa_view_family:
  assumes "table_wf ops rt"
  shows "view_of ops False rt = {r \<in> roa_view ops rt. roa_Family r = AFI_IP}"
    and "view_of ops True rt = {r \<in> roa_view ops rt. roa_Family r = AFI_IP6}"
proof -
  have f: "roa_Family r = (if six then AFI_IP6 else AFI_IP)" if "r \<in> view_of ops six rt" for r six
    using view_of_ok [OF assms that] by (auto simp: roa_ok_def split: if_splits)
  show "view_of ops False rt = {r \<in> roa_view ops rt. roa_Family r = AFI_IP}"
    "view_of ops True rt = {r \<in> roa_view ops rt. roa_Family r = AFI_IP6}"
    by (auto simp: roa_view_def dest: f)
qed

text \<open>An association list satisfies the laws of the tree; the examples run on it.\<close>

definition alist_walk :: "(IPNet \<times> nat) list \<Rightarrow> (IPNet \<times> nat) list" where
  "alist_walk t = map (\<lambda>n. (n, the (map_of t n))) (remdups (filter canonical (map fst t)))"

definition alist_tree :: "(IPNet \<times> nat) list net_tree" where
  "alist_tree = \<lparr>tree_Get = \<lambda>n t. map_of t n, tree_Add = \<lambda>n b t. Some ((n, b) # t),
     tree_Delete = \<lambda>n t. filter (\<lambda>e. fst e \<noteq> n) t, tree_Walk = alist_walk,
     tree_WalkMatch = \<lambda>r t. filter (\<lambda>e. covers (fst e) r) (alist_walk t)\<rparr>"

lemma alist_walk_iff: "(n, b) \<in> set (alist_walk t) \<longleftrightarrow> canonical n \<and> map_of t n = Some b"
proof
  assume "(n, b) \<in> set (alist_walk t)"
  then have "canonical n" "n \<in> fst ` set t" "b = the (map_of t n)" by (auto simp: alist_walk_def)
  then show "canonical n \<and> map_of t n = Some b" by (cases "map_of t n") (auto simp: map_of_eq_None_iff)
next
  assume a: "canonical n \<and> map_of t n = Some b"
  then have "n \<in> fst ` set t" by (metis map_of_eq_None_iff option.distinct(1))
  then show "(n, b) \<in> set (alist_walk t)" using a by (auto simp: alist_walk_def intro!: rev_image_eqI)
qed

lemma alist_tree_laws: "tree_laws alist_tree []"
proof -
  have del: "map_of (filter (\<lambda>e. fst e \<noteq> n) t) m = (if m = n then None else map_of t m)"
    for n m and t :: "(IPNet \<times> nat) list"
    by (induction t) auto
  have dist: "distinct (map fst (alist_walk t))" for t by (simp add: alist_walk_def comp_def)
  show ?thesis
    unfolding tree_laws_def using dist by (auto simp: alist_tree_def alist_walk_iff del)
qed

definition ex_net :: "bytes \<Rightarrow> nat \<Rightarrow> IPNet" where
  "ex_net ip len = \<lparr>IP = ip, Mask = CIDRMask len 32\<rparr>"

definition ex_roa :: "bytes \<Rightarrow> u8 \<Rightarrow> u8 \<Rightarrow> u32 \<Rightarrow> string \<Rightarrow> ROA" where
  "ex_roa = NewROA AFI_IP"

definition ex_roas :: "roa_op list" where
  "ex_roas = [AddROA (ex_roa [10, 0, 0, 0] 8 16 65001 ''rpki1''), AddROA (ex_roa [10, 1, 0, 0] 16 24 65002 ''rpki2''),
     AddROA (ex_roa [10, 1, 0, 0] 16 24 65003 ''rpki2''), DeleteROA (ex_roa [10, 1, 0, 0] 16 24 65002 ''rpki2''),
     AddROA (ex_roa [10, 1, 0, 0] 16 16 65004 ''rpki3''), DeleteAllROA ''rpki1'']"

lemma ex_roas_ok: "list_all roa_op_ok ex_roas" by code_simp

lemma ex_roas_set: "fold roa_spec ex_roas {} =
    {ex_roa [10, 1, 0, 0] 16 24 65003 ''rpki2'', ex_roa [10, 1, 0, 0] 16 16 65004 ''rpki3''}" by code_simp

lemma ex_covering: "{s \<in> {ex_roa [10, 1, 0, 0] 16 24 65003 ''rpki2'', ex_roa [10, 1, 0, 0] 16 16 65004 ''rpki3''}.
    covers (Network s) (ex_net [10, 1, 0, 0] 20)} =
    {ex_roa [10, 1, 0, 0] 16 24 65003 ''rpki2'', ex_roa [10, 1, 0, 0] 16 16 65004 ''rpki3''}"
  by code_simp

lemma ex_roa_simps [simp]:
  "MaxLen (ex_roa ip len m as src) = m" "roa_AS (ex_roa ip len m as src) = as"
  by (simp_all add: ex_roa_def NewROA_def Let_def)

subsection \<open>Properties\<close>

text \<open>C8: the two trees of buckets hold a set of ROAs. After any sequence of \<open>Add\<close>,
  \<open>Delete\<close> and \<open>DeleteAll\<close> on a new table, in which every ROA has a well formed network of its
  family, the ROAs the table lists are the set the same operations give: a ROA is added once,
  \<open>Delete\<close> removes that ROA and no other, \<open>DeleteAll\<close> those of one server and no other, in
  both families; the table stays well formed.\<close>

theorem ROATable_refines:
  assumes "tree_laws ops NewNet" and "list_all roa_op_ok is"
  shows "\<exists>rt. run_steps (roa_step ops) is (NewROATable NewNet) = Inr rt \<and> table_wf ops rt \<and>
    set (roa_List ops 0 rt) = fold roa_spec is {} \<and>
    set (roa_List ops RF_IPv4_UC rt) = {r \<in> fold roa_spec is {}. roa_Family r = AFI_IP} \<and>
    set (roa_List ops RF_IPv6_UC rt) = {r \<in> fold roa_spec is {}. roa_Family r = AFI_IP6}"
proof -
  obtain rt where rt: "run_steps (roa_step ops) is (NewROATable NewNet) = Inr rt" "table_wf ops rt"
      "roa_view ops rt = fold roa_spec is {}"
    using roa_history [OF assms] by blast
  show ?thesis
    using rt roa_List_set [OF assms(1) rt(2)] roa_view_family [OF rt(2)] by auto
qed

theorem ROATable_refines_witness:
  "\<exists>rt. run_steps (roa_step alist_tree) ex_roas (NewROATable []) = Inr rt \<and> table_wf alist_tree rt \<and>
    set (roa_List alist_tree 0 rt) =
      {ex_roa [10, 1, 0, 0] 16 24 65003 ''rpki2'', ex_roa [10, 1, 0, 0] 16 16 65004 ''rpki3''}"
  using ROATable_refines [OF alist_tree_laws ex_roas_ok] unfolding ex_roas_set by blast

text \<open>C7: origin validation is RFC 6811 over the set of ROAs. For a route whose network is well
  formed for its family, the ROAs of the table that cover the prefix are sorted into the three
  lists by maximum length and origin AS; the route is valid if one of them matches, invalid if
  some cover it and none matches, with the reason that fits, and not found if none covers it.
  A ROA for AS 0 matches nothing.\<close>

theorem roa_Validate_RFC6811:
  assumes "tree_laws ops NewNet" and "list_all roa_op_ok is"
    and "run_steps (roa_step ops) is (NewROATable NewNet) = Inr rt"
    and "\<not> IsWithdraw (layer p)" and "\<not> IsEOR p"
    and "nlriToIPNet (nlri (OriginInfo p)) = Some r" and "canonical r"
    and "family (layer p) = (if length (IP r) = 16 then RF_IPv6_UC else RF_IPv4_UC)"
  defines "covering \<equiv> {s \<in> fold roa_spec is {}. covers (Network s) r}"
  shows "\<exists>v. roa_Validate ops rt p = Inr (Some v) \<and>
    set (Matched v) = {s \<in> covering. matching (Mask_Size r) (origin_as p) s} \<and>
    set (UnmatchedAs v) = {s \<in> covering. Mask_Size r \<le> unat (MaxLen s) \<and> \<not> matching (Mask_Size r) (origin_as p) s} \<and>
    set (UnmatchedLength v) = {s \<in> covering. unat (MaxLen s) < Mask_Size r} \<and>
    Status v =
      (if \<exists>s \<in> covering. matching (Mask_Size r) (origin_as p) s then RPKI_VALIDATION_RESULT_TYPE_VALID
       else if covering = {} then RPKI_VALIDATION_RESULT_TYPE_NOT_FOUND
       else RPKI_VALIDATION_RESULT_TYPE_INVALID) \<and>
    (Status v = RPKI_VALIDATION_RESULT_TYPE_INVALID \<longrightarrow>
       Reason v = (if \<exists>s \<in> covering. Mask_Size r \<le> unat (MaxLen s) then RPKI_VALIDATION_REASON_TYPE_AS
                   else RPKI_VALIDATION_REASON_TYPE_LENGTH))"
proof -
  define six where "six = (length (IP r) = 16)"
  define len as where "len = Mask_Size r" and "as = origin_as p"
  have wf: "table_wf ops rt" and view: "roa_view ops rt = fold roa_spec is {}"
    using roa_history [OF assms(1,2)] assms(3) by auto
  define fs where "fs = found_by ops rt six r"
  have fs: "set fs = covering"
    using found_by_set [OF assms(1) wf assms(7), of six] view by (simp add: fs_def six_def covering_def)
  have "family_tree (family (layer p)) rt = Some (tree_of six rt)"
    using assms(8) by (simp add: family_tree_def six_def tree_of_def)
  then have *: "roa_Validate ops rt p = Inr (Some (conclude (foldl (classify len as)
      \<lparr>Status = RPKI_VALIDATION_RESULT_TYPE_NOT_FOUND, Reason = RPKI_VALIDATION_REASON_TYPE_NONE,
       Matched = [], UnmatchedAs = [], UnmatchedLength = []\<rparr> fs)))"
    using assms(4-6) by (simp add: roa_Validate_def fs_def found_by_def len_def as_def)
  show ?thesis
    unfolding fs [symmetric] len_def [symmetric] as_def [symmetric]
    by (intro exI conjI, rule *) (auto simp: foldl_classify filter_empty_conv matching_def not_le)
qed

definition ex_origin :: "u32 list \<Rightarrow> NLRI path" where
  "ex_origin as =
     Root \<lparr>nlri = IPAddrPrefix \<lparr>prefix_addr = Addr4 0x0A010000, prefix_bits = 20\<rparr>, source = ex_source, timestamp = 0,
        stale = False, noImplicitWithdraw = False, isFromExternal = False, eor = False\<rparr>
       \<lparr>pathAttrs = [NewPathAttributeAsPath [NewAs4PathParam 2 as]], dels = [], attrsHash = 0,
        nh = None, localID = 0, remoteID = 0, family = RF_IPv4_UC,
        rejected = False, dropped = False, IsNexthopInvalid = False, IsWithdraw = False\<rparr>"

theorem roa_Validate_RFC6811_witness:
  "\<exists>rt v w. run_steps (roa_step alist_tree) ex_roas (NewROATable []) = Inr rt \<and>
    roa_Validate alist_tree rt (ex_origin [65009, 65003]) = Inr (Some v) \<and> Status v = RPKI_VALIDATION_RESULT_TYPE_VALID \<and>
    roa_Validate alist_tree rt (ex_origin [65003, 65004]) = Inr (Some w) \<and> Status w = RPKI_VALIDATION_RESULT_TYPE_INVALID \<and>
    Reason w = RPKI_VALIDATION_REASON_TYPE_AS"
proof -
  obtain rt where rt: "run_steps (roa_step alist_tree) ex_roas (NewROATable []) = Inr rt"
    using roa_history [OF alist_tree_laws ex_roas_ok] by blast
  note v = roa_Validate_RFC6811 [OF alist_tree_laws ex_roas_ok rt, of "ex_origin as" "ex_net [10, 1, 0, 0] 20" for as,
      unfolded ex_roas_set]
  have p: "\<not> IsWithdraw (layer (ex_origin as))" "\<not> IsEOR (ex_origin as)"
      "nlriToIPNet (nlri (OriginInfo (ex_origin as))) = Some (ex_net [10, 1, 0, 0] 20)"
      "family (layer (ex_origin as)) = (if length (IP (ex_net [10, 1, 0, 0] 20)) = 16 then RF_IPv6_UC else RF_IPv4_UC)" for as
    by (simp_all add: ex_origin_def ex_net_def) code_simp
  have c: "canonical (ex_net [10, 1, 0, 0] 20)" by code_simp
  have "origin_as (ex_origin [65009, 65003]) = 65003" "origin_as (ex_origin [65003, 65004]) = 65004" by code_simp+
  then show ?thesis
    using rt v [OF p(1,2,3) c p(4), of "[65009, 65003]"] v [OF p(1,2,3) c p(4), of "[65003, 65004]"]
    unfolding ex_covering by (auto simp: matching_def ex_net_def Mask_Size_def CIDRMask_def)
qed

end
