(* ===== verification/Rtr_Packet.thy ===== *)
theory Rtr_Packet
  imports Netip
begin

section \<open>The RPKI-to-Router protocol: \<open>pkg/packet/rtr/rtr.go\<close>\<close>

text \<open>
  The PDUs of the RTR protocol, their \<open>Serialize\<close> and \<open>DecodeFromBytes\<close> methods,
  the dispatcher \<open>ParseRTR\<close> and the stream reader \<open>readRTRMessage\<close> of
  \<open>pkg/server/rpki.go\<close>. A Go struct is a record, the interface \<open>RTRMessage\<close> is the
  datatype of the structs that implement it. A decoder returns the decoded struct; where
  the Go method leaves its receiver half filled and returns an error, the model returns
  the error alone, which is all the callers look at.
\<close>

datatype rtr_error = Errors_New string | UnknownRTRType u8

abbreviation (input) "RTR_SERIAL_NOTIFY \<equiv> (0 :: u8)"
abbreviation (input) "RTR_SERIAL_QUERY \<equiv> (1 :: u8)"
abbreviation (input) "RTR_RESET_QUERY \<equiv> (2 :: u8)"
abbreviation (input) "RTR_CACHE_RESPONSE \<equiv> (3 :: u8)"
abbreviation (input) "RTR_IPV4_PREFIX \<equiv> (4 :: u8)"
abbreviation (input) "RTR_IPV6_PREFIX \<equiv> (6 :: u8)"
abbreviation (input) "RTR_END_OF_DATA \<equiv> (7 :: u8)"
abbreviation (input) "RTR_CACHE_RESET \<equiv> (8 :: u8)"
abbreviation (input) "RTR_ERROR_REPORT \<equiv> (10 :: u8)"

abbreviation (input) "RTR_MIN_LEN \<equiv> (8 :: nat)"
abbreviation (input) "RTR_MAX_LEN \<equiv> (65535 :: nat)"

subsection \<open>PDU types\<close>

record RTRCommon =
  com_Version :: u8
  com_Type :: u8
  com_SessionID :: u16
  com_Len :: u32
  com_SerialNumber :: u32

record RTRReset =
  rst_Version :: u8
  rst_Type :: u8
  rst_Len :: u32

record RTRCacheResponse =
  crs_Version :: u8
  crs_Type :: u8
  crs_SessionID :: u16
  crs_Len :: u32

record RTRIPPrefix =
  ipp_Version :: u8
  ipp_Type :: u8
  ipp_Len :: u32
  ipp_Flags :: u8
  ipp_PrefixLen :: u8
  ipp_MaxLen :: u8
  ipp_Prefix :: addr
  ipp_AS :: u32

record RTRErrorReport =
  er_Version :: u8
  er_Type :: u8
  er_ErrorCode :: u16
  er_Len :: u32
  er_PDULen :: u32
  er_PDU :: bytes
  er_TextLen :: u32
  er_Text :: bytes

datatype RTRMessage =
    RTRSerialNotify RTRCommon
  | RTRSerialQuery RTRCommon
  | RTRResetQuery RTRReset
  | RTRCacheResponseMsg RTRCacheResponse
  | RTRIPPrefixMsg RTRIPPrefix
  | RTREndOfData RTRCommon
  | RTRCacheReset RTRReset
  | RTRErrorReportMsg RTRErrorReport

subsection \<open>\<open>RTRCommon\<close>\<close>

definition RTRCommon_Decode :: "bytes \<Rightarrow> (rtr_error, RTRCommon) res" where
  "RTRCommon_Decode data =
     guard_err (length data < 12) (Errors_New ''data too short for RTRCommon'')
      (rbind (get_u8 data 0) (\<lambda>v.
       rbind (get_u8 data 1) (\<lambda>t.
       rbind (get_u16 data 2) (\<lambda>sid.
       rbind (get_u32 data 4) (\<lambda>l.
       rbind (get_u32 data 8) (\<lambda>sn.
         Inr \<lparr>com_Version = v, com_Type = t, com_SessionID = sid, com_Len = l,
              com_SerialNumber = sn\<rparr>))))))"

definition RTRCommon_Serialize :: "RTRCommon \<Rightarrow> (rtr_error, bytes) res" where
  "RTRCommon_Serialize m =
     rbind (put_bytes 0 [com_Version m] (make_bytes (unat (com_Len m)))) (\<lambda>d.
     rbind (put_bytes 1 [com_Type m] d) (\<lambda>d.
     rbind (put_bytes 2 (to_be 2 (com_SessionID m)) d) (\<lambda>d.
     rbind (put_bytes 4 (to_be 4 (com_Len m)) d) (\<lambda>d.
     put_bytes 8 (to_be 4 (com_SerialNumber m)) d))))"

definition NewRTRSerialNotify :: "u16 \<Rightarrow> u32 \<Rightarrow> RTRMessage" where
  "NewRTRSerialNotify sid sn = RTRSerialNotify \<lparr>com_Version = 0, com_Type = RTR_SERIAL_NOTIFY,
     com_SessionID = sid, com_Len = 12, com_SerialNumber = sn\<rparr>"

definition NewRTRSerialQuery :: "u16 \<Rightarrow> u32 \<Rightarrow> RTRMessage" where
  "NewRTRSerialQuery sid sn = RTRSerialQuery \<lparr>com_Version = 0, com_Type = RTR_SERIAL_QUERY,
     com_SessionID = sid, com_Len = 12, com_SerialNumber = sn\<rparr>"

definition NewRTREndOfData :: "u16 \<Rightarrow> u32 \<Rightarrow> RTRMessage" where
  "NewRTREndOfData sid sn = RTREndOfData \<lparr>com_Version = 0, com_Type = RTR_END_OF_DATA,
     com_SessionID = sid, com_Len = 12, com_SerialNumber = sn\<rparr>"

subsection \<open>\<open>RTRReset\<close> and \<open>RTRCacheResponse\<close>\<close>

definition RTRReset_Decode :: "bytes \<Rightarrow> (rtr_error, RTRReset) res" where
  "RTRReset_Decode data =
     guard_err (length data < 8) (Errors_New ''data too short for RTRReset'')
      (rbind (get_u8 data 0) (\<lambda>v.
       rbind (get_u8 data 1) (\<lambda>t.
       rbind (get_u32 data 4) (\<lambda>l.
         Inr \<lparr>rst_Version = v, rst_Type = t, rst_Len = l\<rparr>))))"

definition RTRReset_Serialize :: "RTRReset \<Rightarrow> (rtr_error, bytes) res" where
  "RTRReset_Serialize m =
     rbind (put_bytes 0 [rst_Version m] (make_bytes (unat (rst_Len m)))) (\<lambda>d.
     rbind (put_bytes 1 [rst_Type m] d) (\<lambda>d.
     put_bytes 4 (to_be 4 (rst_Len m)) d))"

definition NewRTRResetQuery :: RTRMessage where
  "NewRTRResetQuery = RTRResetQuery \<lparr>rst_Version = 0, rst_Type = RTR_RESET_QUERY, rst_Len = 8\<rparr>"

definition NewRTRCacheReset :: RTRMessage where
  "NewRTRCacheReset = RTRCacheReset \<lparr>rst_Version = 0, rst_Type = RTR_CACHE_RESET, rst_Len = 8\<rparr>"

definition RTRCacheResponse_Decode :: "bytes \<Rightarrow> (rtr_error, RTRCacheResponse) res" where
  "RTRCacheResponse_Decode data =
     guard_err (length data < 8) (Errors_New ''data too short for RTRCacheResponse'')
      (rbind (get_u8 data 0) (\<lambda>v.
       rbind (get_u8 data 1) (\<lambda>t.
       rbind (get_u16 data 2) (\<lambda>sid.
       rbind (get_u32 data 4) (\<lambda>l.
         Inr \<lparr>crs_Version = v, crs_Type = t, crs_SessionID = sid, crs_Len = l\<rparr>)))))"

definition RTRCacheResponse_Serialize :: "RTRCacheResponse \<Rightarrow> (rtr_error, bytes) res" where
  "RTRCacheResponse_Serialize m =
     rbind (put_bytes 0 [crs_Version m] (make_bytes (unat (crs_Len m)))) (\<lambda>d.
     rbind (put_bytes 1 [crs_Type m] d) (\<lambda>d.
     rbind (put_bytes 2 (to_be 2 (crs_SessionID m)) d) (\<lambda>d.
     put_bytes 4 (to_be 4 (crs_Len m)) d)))"

definition NewRTRCacheResponse :: "u16 \<Rightarrow> RTRMessage" where
  "NewRTRCacheResponse sid = RTRCacheResponseMsg \<lparr>crs_Version = 0, crs_Type = RTR_CACHE_RESPONSE,
     crs_SessionID = sid, crs_Len = 8\<rparr>"

subsection \<open>\<open>RTRIPPrefix\<close>\<close>

definition RTRIPPrefix_Decode :: "bytes \<Rightarrow> (rtr_error, RTRIPPrefix) res" where
  "RTRIPPrefix_Decode data =
     guard_err (length data < 20) (Errors_New ''data too short for RTRIPPrefix'')
      (rbind (get_u8 data 0) (\<lambda>v.
       rbind (get_u8 data 1) (\<lambda>t.
       rbind (get_u32 data 4) (\<lambda>l.
       rbind (get_u8 data 8) (\<lambda>flags.
       rbind (get_u8 data 9) (\<lambda>plen.
       rbind (get_u8 data 10) (\<lambda>mlen.
         if t = RTR_IPV4_PREFIX then
           guard_err (mlen > 32 \<or> plen > mlen)
             (Errors_New ''prefix or max length out of range for IPv4 RTRIPPrefix'')
            (rbind (slice data 12 16) (\<lambda>p.
             rbind (get_u32 data 16) (\<lambda>as.
               Inr \<lparr>ipp_Version = v, ipp_Type = t, ipp_Len = l, ipp_Flags = flags,
                    ipp_PrefixLen = plen, ipp_MaxLen = mlen, ipp_Prefix = AddrFromSlice p,
                    ipp_AS = as\<rparr>)))
         else
           guard_err (length data < 32) (Errors_New ''data too short for RTRIPPrefix'')
            (guard_err (mlen > 128 \<or> plen > mlen)
              (Errors_New ''prefix or max length out of range for IPv6 RTRIPPrefix'')
             (rbind (slice data 12 28) (\<lambda>p.
              rbind (get_u32 data 28) (\<lambda>as.
                Inr \<lparr>ipp_Version = v, ipp_Type = t, ipp_Len = l, ipp_Flags = flags,
                     ipp_PrefixLen = plen, ipp_MaxLen = mlen, ipp_Prefix = AddrFromSlice p,
                     ipp_AS = as\<rparr>)))))))))))"

definition RTRIPPrefix_Serialize :: "RTRIPPrefix \<Rightarrow> (rtr_error, bytes) res" where
  "RTRIPPrefix_Serialize m =
     rbind (put_bytes 0 [ipp_Version m] (make_bytes (unat (ipp_Len m)))) (\<lambda>d.
     rbind (put_bytes 1 [ipp_Type m] d) (\<lambda>d.
     rbind (put_bytes 4 (to_be 4 (ipp_Len m)) d) (\<lambda>d.
     rbind (put_bytes 8 [ipp_Flags m] d) (\<lambda>d.
     rbind (put_bytes 9 [ipp_PrefixLen m] d) (\<lambda>d.
     rbind (put_bytes 10 [ipp_MaxLen m] d) (\<lambda>d.
       if ipp_Type m = RTR_IPV4_PREFIX then
         rbind (copy_bytes 12 16 (AsSlice (ipp_Prefix m)) d) (\<lambda>d.
         put_bytes 16 (to_be 4 (ipp_AS m)) d)
       else
         rbind (copy_bytes 12 28 (AsSlice (ipp_Prefix m)) d) (\<lambda>d.
         put_bytes 28 (to_be 4 (ipp_AS m)) d)))))))"

definition NewRTRIPPrefix :: "addr \<Rightarrow> u8 \<Rightarrow> u8 \<Rightarrow> u32 \<Rightarrow> u8 \<Rightarrow> RTRMessage option" where
  "NewRTRIPPrefix prefix prefixLen maxLen as flags =
     (if Is4 prefix \<and> prefixLen \<le> 32 then
        Some (RTRIPPrefixMsg \<lparr>ipp_Version = 0, ipp_Type = RTR_IPV4_PREFIX, ipp_Len = 20,
          ipp_Flags = flags, ipp_PrefixLen = prefixLen, ipp_MaxLen = maxLen,
          ipp_Prefix = prefix, ipp_AS = as\<rparr>)
      else if Is6 prefix \<and> prefixLen \<le> 128 then
        Some (RTRIPPrefixMsg \<lparr>ipp_Version = 0, ipp_Type = RTR_IPV6_PREFIX, ipp_Len = 32,
          ipp_Flags = flags, ipp_PrefixLen = prefixLen, ipp_MaxLen = maxLen,
          ipp_Prefix = prefix, ipp_AS = as\<rparr>)
      else None)"

subsection \<open>\<open>RTRErrorReport\<close>\<close>

text \<open>The bounds are compared in \<open>uint32\<close>, as the code does: \<open>uint32(len(data))\<close> is the
  length modulo $2^{32}$, and \<open>12+m.PDULen\<close> in \<open>Serialize\<close> wraps around.\<close>

definition RTRErrorReport_Decode :: "bytes \<Rightarrow> (rtr_error, RTRErrorReport) res" where
  "RTRErrorReport_Decode data0 =
     guard_err (length data0 < 12) (Errors_New ''data too short for RTRErrorReport'')
      (rbind (get_u8 data0 0) (\<lambda>v.
       rbind (get_u8 data0 1) (\<lambda>t.
       rbind (get_u16 data0 2) (\<lambda>code.
       rbind (get_u32 data0 4) (\<lambda>l.
         guard_err (l < 16) (Errors_New ''data too short for RTRErrorReport'')
        (guard_err ((of_nat (length data0) :: u32) < l)
           (Errors_New ''data too short for RTRErrorReport'')
        (rbind (slice data0 0 (unat l)) (\<lambda>data.
         rbind (get_u32 data 8) (\<lambda>pdulen.
           guard_err (pdulen > of_nat (length data - 12 - 4))
             (Errors_New ''data too short for RTRErrorReport'')
          (rbind (slice data 12 (unat (12 + pdulen))) (\<lambda>pdu.
           let textLenOffset = 12 + unat pdulen; textOffset = textLenOffset + 4 in
           rbind (get_u32 data textLenOffset) (\<lambda>textlen.
             guard_err (textlen > of_nat (length data - textOffset))
               (Errors_New ''data too short for RTRErrorReport'')
            (guard_err ((ucast l :: u64) \<noteq> 16 + ucast pdulen + ucast textlen)
               (Errors_New ''invalid RTRErrorReport length'')
            (rbind (slice data textOffset (textOffset + unat textlen)) (\<lambda>text.
              Inr \<lparr>er_Version = v, er_Type = t, er_ErrorCode = code, er_Len = l,
                   er_PDULen = pdulen, er_PDU = pdu, er_TextLen = textlen,
                   er_Text = text\<rparr>)))))))))))))))"

definition RTRErrorReport_Serialize :: "RTRErrorReport \<Rightarrow> (rtr_error, bytes) res" where
  "RTRErrorReport_Serialize m =
     (let n = unat (er_Len m) in
     rbind (put_bytes 0 [er_Version m] (make_bytes n)) (\<lambda>d.
     rbind (put_bytes 1 [er_Type m] d) (\<lambda>d.
     rbind (put_bytes 2 (to_be 2 (er_ErrorCode m)) d) (\<lambda>d.
     rbind (put_bytes 4 (to_be 4 (er_Len m)) d) (\<lambda>d.
     rbind (put_bytes 8 (to_be 4 (er_PDULen m)) d) (\<lambda>d.
     rbind (copy_bytes 12 (length d) (er_PDU m) d) (\<lambda>d.
     rbind (if 12 + er_PDULen m \<le> 16 + er_PDULen m
            then put_bytes (unat (12 + er_PDULen m)) (to_be 4 (er_TextLen m)) d
            else Inl Panic) (\<lambda>d.
     copy_bytes (unat (16 + er_PDULen m)) (length d) (er_Text m) d))))))))"

text \<open>A nil slice argument is \<open>None\<close>; \<open>errPDU[1]\<close> panics on a non-nil slice of fewer
  than two bytes.\<close>

definition NewRTRErrorReport ::
  "u16 \<Rightarrow> bytes option \<Rightarrow> bytes option \<Rightarrow> (rtr_error, RTRMessage option) res" where
  "NewRTRErrorReport errCode errPDU errMsg =
     (let pdu = (case errPDU of None \<Rightarrow> [] | Some b \<Rightarrow> b);
          text = (case errMsg of None \<Rightarrow> [] | Some b \<Rightarrow> b);
          pdulen = of_nat (length pdu); textlen = of_nat (length text);
          msg = RTRErrorReportMsg \<lparr>er_Version = 0, er_Type = RTR_ERROR_REPORT,
                  er_ErrorCode = errCode, er_Len = 8 + 4 + pdulen + 4 + textlen,
                  er_PDULen = pdulen, er_PDU = pdu, er_TextLen = textlen, er_Text = text\<rparr>
      in case errPDU of
           None \<Rightarrow> Inr (Some msg)
         | Some b \<Rightarrow> rbind (get_u8 b 1) (\<lambda>t.
             if t = RTR_ERROR_REPORT then Inr None else Inr (Some msg)))"

subsection \<open>Dispatch\<close>

fun RTR_Serialize :: "RTRMessage \<Rightarrow> (rtr_error, bytes) res" where
  "RTR_Serialize (RTRSerialNotify m) = RTRCommon_Serialize m"
| "RTR_Serialize (RTRSerialQuery m) = RTRCommon_Serialize m"
| "RTR_Serialize (RTRResetQuery m) = RTRReset_Serialize m"
| "RTR_Serialize (RTRCacheResponseMsg m) = RTRCacheResponse_Serialize m"
| "RTR_Serialize (RTRIPPrefixMsg m) = RTRIPPrefix_Serialize m"
| "RTR_Serialize (RTREndOfData m) = RTRCommon_Serialize m"
| "RTR_Serialize (RTRCacheReset m) = RTRReset_Serialize m"
| "RTR_Serialize (RTRErrorReportMsg m) = RTRErrorReport_Serialize m"

definition ParseRTR :: "bytes \<Rightarrow> (rtr_error, RTRMessage) res" where
  "ParseRTR data =
     guard_err (length data < RTR_MIN_LEN)
       (Errors_New ''not all bytes are available for RTR message'')
      (rbind (get_u8 data 1) (\<lambda>t.
        if t = RTR_SERIAL_NOTIFY then
          rbind (RTRCommon_Decode data) (\<lambda>m. Inr (RTRSerialNotify m))
        else if t = RTR_SERIAL_QUERY then
          rbind (RTRCommon_Decode data) (\<lambda>m. Inr (RTRSerialQuery m))
        else if t = RTR_RESET_QUERY then
          rbind (RTRReset_Decode data) (\<lambda>m. Inr (RTRResetQuery m))
        else if t = RTR_CACHE_RESPONSE then
          rbind (RTRCacheResponse_Decode data) (\<lambda>m. Inr (RTRCacheResponseMsg m))
        else if t = RTR_IPV4_PREFIX then
          rbind (RTRIPPrefix_Decode data) (\<lambda>m. Inr (RTRIPPrefixMsg m))
        else if t = RTR_IPV6_PREFIX then
          rbind (RTRIPPrefix_Decode data) (\<lambda>m. Inr (RTRIPPrefixMsg m))
        else if t = RTR_END_OF_DATA then
          rbind (RTRCommon_Decode data) (\<lambda>m. Inr (RTREndOfData m))
        else if t = RTR_CACHE_RESET then
          rbind (RTRReset_Decode data) (\<lambda>m. Inr (RTRCacheReset m))
        else if t = RTR_ERROR_REPORT then
          rbind (RTRErrorReport_Decode data) (\<lambda>m. Inr (RTRErrorReportMsg m))
        else Inl (Err (UnknownRTRType t))))"

subsection \<open>The stream reader \<open>readRTRMessage\<close>\<close>

text \<open>The reader is the list of bytes that are still to come; \<open>io.ReadFull\<close> fails when
  fewer bytes than asked for arrive.\<close>

datatype read_error = ReadFailed | TooShortHeader u32 | TooLargeHeader u32

definition ReadFull :: "nat \<Rightarrow> bytes \<Rightarrow> (read_error, bytes \<times> bytes) res" where
  "ReadFull n r = (if n \<le> length r then Inr (take n r, drop n r) else Inl (Err ReadFailed))"

definition readRTRMessage :: "bytes \<Rightarrow> (read_error, bytes \<times> bytes) res" where
  "readRTRMessage r =
     rbind (ReadFull RTR_MIN_LEN r) (\<lambda>(header, r').
     rbind (get_u32 header 4) (\<lambda>totalLen.
       guard_err (totalLen < 8) (TooShortHeader totalLen)
      (guard_err (totalLen > 65535) (TooLargeHeader totalLen)
      (rbind (ReadFull (unat (totalLen - 8)) r') (\<lambda>(body, r'').
         Inr (header @ body, r''))))))"

subsection \<open>Well-formed PDUs\<close>

text \<open>What the constructors build: the type byte of the struct, the length field of the
  layout, and prefix lengths in the range of the address family.\<close>

fun rtr_wf :: "RTRMessage \<Rightarrow> bool" where
  "rtr_wf (RTRSerialNotify m) \<longleftrightarrow> com_Type m = RTR_SERIAL_NOTIFY \<and> com_Len m = 12"
| "rtr_wf (RTRSerialQuery m) \<longleftrightarrow> com_Type m = RTR_SERIAL_QUERY \<and> com_Len m = 12"
| "rtr_wf (RTRResetQuery m) \<longleftrightarrow> rst_Type m = RTR_RESET_QUERY \<and> rst_Len m = 8"
| "rtr_wf (RTRCacheResponseMsg m) \<longleftrightarrow> crs_Type m = RTR_CACHE_RESPONSE \<and> crs_Len m = 8"
| "rtr_wf (RTRIPPrefixMsg m) \<longleftrightarrow>
     ipp_PrefixLen m \<le> ipp_MaxLen m \<and>
     (ipp_Type m = RTR_IPV4_PREFIX \<and> ipp_Len m = 20 \<and> Is4 (ipp_Prefix m) \<and> ipp_MaxLen m \<le> 32 \<or>
      ipp_Type m = RTR_IPV6_PREFIX \<and> ipp_Len m = 32 \<and> Is6 (ipp_Prefix m) \<and>
        Zone (ipp_Prefix m) = [] \<and> ipp_MaxLen m \<le> 128)"
| "rtr_wf (RTREndOfData m) \<longleftrightarrow> com_Type m = RTR_END_OF_DATA \<and> com_Len m = 12"
| "rtr_wf (RTRCacheReset m) \<longleftrightarrow> rst_Type m = RTR_CACHE_RESET \<and> rst_Len m = 8"
| "rtr_wf (RTRErrorReportMsg m) \<longleftrightarrow>
     er_Type m = RTR_ERROR_REPORT \<and> 16 + length (er_PDU m) + length (er_Text m) < 2 ^ 32 \<and>
     er_PDULen m = of_nat (length (er_PDU m)) \<and> er_TextLen m = of_nat (length (er_Text m)) \<and>
     er_Len m = 16 + er_PDULen m + er_TextLen m"

subsection \<open>Layout of the serialised PDUs\<close>

lemma RTRCommon_layout:
  assumes "com_Len m = 12"
  shows "RTRCommon_Serialize m =
    Inr ([com_Version m, com_Type m] @ to_be 2 (com_SessionID m) @ to_be 4 (com_Len m) @
         to_be 4 (com_SerialNumber m))"
  using assms by (simp add: RTRCommon_Serialize_def byte_simps padded_full)

lemma RTRReset_layout:
  assumes "rst_Len m = 8"
  shows "RTRReset_Serialize m =
    Inr ([rst_Version m, rst_Type m] @ replicate 2 0 @ to_be 4 (rst_Len m))"
  using assms by (simp add: RTRReset_Serialize_def byte_simps padded_full)

lemma RTRCacheResponse_layout:
  assumes "crs_Len m = 8"
  shows "RTRCacheResponse_Serialize m =
    Inr ([crs_Version m, crs_Type m] @ to_be 2 (crs_SessionID m) @ to_be 4 (crs_Len m))"
  using assms by (simp add: RTRCacheResponse_Serialize_def byte_simps padded_full)

lemma RTRIPPrefix4_layout:
  assumes "ipp_Type m = RTR_IPV4_PREFIX" and "ipp_Len m = 20" and "Is4 (ipp_Prefix m)"
  shows "RTRIPPrefix_Serialize m =
    Inr ([ipp_Version m, ipp_Type m] @ replicate 2 0 @ to_be 4 (ipp_Len m) @
         [ipp_Flags m, ipp_PrefixLen m, ipp_MaxLen m, 0] @ AsSlice (ipp_Prefix m) @
         to_be 4 (ipp_AS m))"
  using assms
  by (cases "ipp_Prefix m") (simp_all add: RTRIPPrefix_Serialize_def byte_simps padded_full)

lemma RTRIPPrefix6_layout:
  assumes "ipp_Type m = RTR_IPV6_PREFIX" and "ipp_Len m = 32" and "Is6 (ipp_Prefix m)"
  shows "RTRIPPrefix_Serialize m =
    Inr ([ipp_Version m, ipp_Type m] @ replicate 2 0 @ to_be 4 (ipp_Len m) @
         [ipp_Flags m, ipp_PrefixLen m, ipp_MaxLen m, 0] @ AsSlice (ipp_Prefix m) @
         to_be 4 (ipp_AS m))"
  using assms
  by (cases "ipp_Prefix m") (simp_all add: RTRIPPrefix_Serialize_def byte_simps padded_full)

lemma RTRErrorReport_layout:
  assumes "rtr_wf (RTRErrorReportMsg m)"
  shows "RTRErrorReport_Serialize m =
    Inr ([er_Version m, er_Type m] @ to_be 2 (er_ErrorCode m) @ to_be 4 (er_Len m) @
         to_be 4 (er_PDULen m) @ er_PDU m @ to_be 4 (er_TextLen m) @ er_Text m)"
proof -
  let ?p = "length (er_PDU m)" and ?t = "length (er_Text m)"
  from assms have lt: "16 + ?p + ?t < 2 ^ 32"
    and eqs: "er_PDULen m = of_nat ?p" "er_TextLen m = of_nat ?t"
      "er_Len m = of_nat (16 + ?p + ?t)"
    by auto
  have u: "unat (er_Len m) = 16 + ?p + ?t" "unat (12 + er_PDULen m) = 12 + ?p"
      "unat (16 + er_PDULen m) = 16 + ?p"
    using lt by (simp_all add: eqs unat_of_nat unat_word_ariths)
  then have le: "12 + er_PDULen m \<le> 16 + er_PDULen m"
    by (simp add: word_le_nat_alt)
  show ?thesis
    using lt by (simp add: RTRErrorReport_Serialize_def u le byte_simps padded_full length_padded)
qed

subsection \<open>Round trips\<close>

lemma RTRCommon_roundtrip:
  "com_Len m = 12 \<Longrightarrow> rbind (RTRCommon_Serialize m) RTRCommon_Decode = Inr m"
  by (simp add: RTRCommon_layout RTRCommon_Decode_def byte_simps res_simps)

lemma RTRReset_roundtrip:
  "rst_Len m = 8 \<Longrightarrow> rbind (RTRReset_Serialize m) RTRReset_Decode = Inr m"
  by (simp add: RTRReset_layout RTRReset_Decode_def byte_simps res_simps)

lemma RTRCacheResponse_roundtrip:
  "crs_Len m = 8 \<Longrightarrow> rbind (RTRCacheResponse_Serialize m) RTRCacheResponse_Decode = Inr m"
  by (simp add: RTRCacheResponse_layout RTRCacheResponse_Decode_def byte_simps res_simps)

lemma RTRIPPrefix_roundtrip:
  assumes "rtr_wf (RTRIPPrefixMsg m)"
  shows "rbind (RTRIPPrefix_Serialize m) RTRIPPrefix_Decode = Inr m"
proof (cases "ipp_Type m = RTR_IPV4_PREFIX")
  case True
  with assms obtain w where "ipp_Prefix m = Addr4 w" by (cases "ipp_Prefix m") auto
  with True assms show ?thesis
    by (simp add: RTRIPPrefix4_layout RTRIPPrefix_Decode_def byte_simps res_simps not_less
        nth_append AddrFromSlice_def)
next
  case False
  with assms obtain w where "ipp_Prefix m = Addr6 w []" by (cases "ipp_Prefix m") auto
  with False assms show ?thesis
    by (simp add: RTRIPPrefix6_layout RTRIPPrefix_Decode_def byte_simps res_simps not_less
        nth_append AddrFromSlice_def)
qed

lemma RTRErrorReport_roundtrip:
  assumes wf: "rtr_wf (RTRErrorReportMsg m)"
  shows "rbind (RTRErrorReport_Serialize m) RTRErrorReport_Decode = Inr m"
proof -
  let ?p = "length (er_PDU m)" and ?t = "length (er_Text m)"
  from wf have lt: "16 + ?p + ?t < 2 ^ 32"
    and eqs: "er_PDULen m = of_nat ?p" "er_TextLen m = of_nat ?t"
      "er_Len m = of_nat (16 + ?p + ?t)"
    by auto
  have u: "unat (er_Len m) = 16 + ?p + ?t" "unat (er_PDULen m) = ?p" "unat (er_TextLen m) = ?t"
      "unat (12 + er_PDULen m) = 12 + ?p"
    using lt by (simp_all add: eqs unat_of_nat unat_word_ariths)
  have g: "\<not> er_Len m < 16" "\<not> (of_nat (16 + (?p + ?t)) :: u32) < er_Len m"
      "\<not> er_PDULen m > of_nat (?p + ?t)" "\<not> er_TextLen m > of_nat ?t"
    using lt u by (auto simp: word_less_nat_alt eqs(3) unat_of_nat add.assoc simp del: of_nat_add)
  have tot: "(ucast (er_Len m) :: u64) = 16 + ucast (er_PDULen m) + ucast (er_TextLen m)"
    using lt u by (simp add: word_unat_eq_iff unat_word_ariths unsigned_ucast_eq take_bit_nat_eq_self)
  show ?thesis
    using g u tot by (simp add: RTRErrorReport_layout [OF wf] RTRErrorReport_Decode_def byte_simps
        res_simps add.assoc Let_def drop_Cons' del: of_nat_add)
qed

lemmas rtr_layouts = RTRCommon_layout RTRReset_layout RTRCacheResponse_layout
  RTRIPPrefix4_layout RTRIPPrefix6_layout

text \<open>The first eight bytes of every PDU: its type at offset 1, its length at offset 4.\<close>

lemma rtr_wf_header:
  assumes "rtr_wf m" and "RTR_Serialize m = Inr bs"
  shows "8 \<le> length bs \<and> unat (of_be (take 4 (drop 4 bs)) :: u32) = length bs \<and>
    bs ! 1 = (case m of RTRSerialNotify _ \<Rightarrow> 0 | RTRSerialQuery _ \<Rightarrow> 1 | RTRResetQuery _ \<Rightarrow> 2
      | RTRCacheResponseMsg _ \<Rightarrow> 3 | RTRIPPrefixMsg p \<Rightarrow> ipp_Type p | RTREndOfData _ \<Rightarrow> 7
      | RTRCacheReset _ \<Rightarrow> 8 | RTRErrorReportMsg _ \<Rightarrow> 10)"
proof (cases m)
  case (RTRErrorReportMsg e)
  with assms have wf: "rtr_wf (RTRErrorReportMsg e)" by simp
  then have "unat (er_Len e) = 16 + length (er_PDU e) + length (er_Text e)"
    by (simp add: unat_of_nat unat_word_ariths)
  with assms RTRErrorReportMsg wf show ?thesis
    by (auto simp: RTRErrorReport_layout [OF wf])
next
  case (RTRIPPrefixMsg p)
  with assms show ?thesis
    by (cases "ipp_Prefix p") (auto simp: rtr_layouts)
qed (use assms in \<open>auto simp: rtr_layouts\<close>)

lemma RTR_Serialize_total: "rtr_wf m \<Longrightarrow> \<exists>bs. RTR_Serialize m = Inr bs"
  by (cases m)
     (auto simp: rtr_layouts RTRErrorReport_layout simp del: rtr_wf.simps(8))

lemma RTR_roundtrip_aux:
  assumes wf: "rtr_wf m"
  shows "\<exists>bs. RTR_Serialize m = Inr bs \<and> ParseRTR bs = Inr m"
proof -
  obtain bs where bs: "RTR_Serialize m = Inr bs"
    using RTR_Serialize_total [OF wf] ..
  note hd = rtr_wf_header [OF wf bs]
  have "ParseRTR bs = Inr m"
  proof (cases m)
    case (RTRIPPrefixMsg p)
    with wf bs RTRIPPrefix_roundtrip [of p] have "RTRIPPrefix_Decode bs = Inr p" by simp
    with RTRIPPrefixMsg hd wf show ?thesis
      by (auto simp: ParseRTR_def byte_simps res_simps not_less)
  next
    case (RTRErrorReportMsg e)
    with wf bs RTRErrorReport_roundtrip [of e] have "RTRErrorReport_Decode bs = Inr e" by simp
    with RTRErrorReportMsg hd show ?thesis
      by (simp add: ParseRTR_def byte_simps res_simps not_less)
  qed (use wf bs hd RTRCommon_roundtrip RTRReset_roundtrip RTRCacheResponse_roundtrip in
        \<open>fastforce simp: ParseRTR_def byte_simps res_simps not_less\<close>)+
  with bs show ?thesis by blast
qed

interpretation rtr_codec: message_codec rtr_wf RTR_Serialize ParseRTR
  by unfold_locales (rule RTR_roundtrip_aux)

subsection \<open>The receive loop of \<open>roaClient.established\<close>\<close>

lemma readRTRMessage_shorter:
  "readRTRMessage r = Inr (d, r') \<Longrightarrow> length r' < length r"
  by (auto simp: readRTRMessage_def ReadFull_def res_simps split: if_splits)

text \<open>The data of the \<open>roaRTR\<close> events the loop sends until the reader fails. Every
  message takes at least its header off the stream, so the loop ends on a finite stream.\<close>

function established :: "bytes \<Rightarrow> bytes list" where
  "established r = (case readRTRMessage r of
      Inl e \<Rightarrow> []
    | Inr (d, r') \<Rightarrow> d # established r')"
  by pat_completeness auto
termination
  by (relation "measure length") (auto dest: readRTRMessage_shorter)

declare established.simps [simp del]

lemma readRTRMessage_frame:
  assumes "rtr_wf m" and "RTR_Serialize m = Inr bs" and "length bs \<le> RTR_MAX_LEN"
  shows "readRTRMessage (bs @ rest) = Inr (bs, rest)"
proof -
  let ?l = "of_be (take 4 (drop 4 bs)) :: u32"
  from rtr_wf_header [OF assms(1,2)] have len: "8 \<le> length bs" "unat ?l = length bs" by auto
  then have "\<not> ?l < 8" "\<not> ?l > 65535" "unat (?l - 8) = length bs - 8"
    using assms(3) by (auto simp: word_less_nat_alt unat_sub word_le_nat_alt)
  moreover have "take 4 (drop 4 (take 8 (bs @ rest))) = take 4 (drop 4 bs)"
    using len by (simp add: drop_take)
  ultimately show ?thesis
    using len by (simp add: readRTRMessage_def ReadFull_def byte_simps res_simps)
qed

interpretation rtr_stream: stream_codec rtr_wf RTR_Serialize ParseRTR readRTRMessage established
  "\<lambda>bs. length bs \<le> RTR_MAX_LEN"
proof unfold_locales
  show "\<exists>e. readRTRMessage [] = Inl e" by (simp add: readRTRMessage_def ReadFull_def)
qed (auto simp: readRTRMessage_frame established.simps)

subsection \<open>No input makes the parser panic\<close>

lemma RTRIPPrefix_Decode_no_panic: "no_panic (RTRIPPrefix_Decode data)"
  by (cases "length data < 20")
     (auto simp: RTRIPPrefix_Decode_def byte_simps res_simps not_less guard_err_def
       simp del: length_greater_0_conv)

lemma RTRErrorReport_Decode_no_panic: "no_panic (RTRErrorReport_Decode data0)"
proof (cases "length data0 < 12")
  case True
  then show ?thesis by (simp add: RTRErrorReport_Decode_def)
next
  case False
  define l :: u32 where "l = of_be (take 4 (drop 4 data0))"
  define data where "data = take (unat l) data0"
  define pdulen :: u32 where "pdulen = of_be (take 4 (drop 8 data))"
  define textlen :: u32 where "textlen = of_be (take 4 (drop (12 + unat pdulen) data))"
  have lmax: "unat l < 2 ^ 32" using unsigned_less [of l] by simp
  have *: "no_panic (RTRErrorReport_Decode data0)"
    if l: "\<not> l < 16" and n: "\<not> (of_nat (length data0) :: u32) < l"
  proof -
    have "unat (of_nat (length data0) :: u32) \<le> length data0"
      by (simp add: unat_of_nat)
    with n have le: "unat l \<le> length data0" by (simp add: word_less_nat_alt)
    then have len: "length data = unat l" by (simp add: data_def)
    have l16: "16 \<le> unat l" using l by (simp add: word_less_nat_alt)
    have p: "unat pdulen \<le> unat l - 16" if "\<not> pdulen > of_nat (length data - 12 - 4)"
    proof -
      have "unat (of_nat (length data - 16) :: u32) = unat l - 16"
        using lmax by (simp add: len unat_of_nat)
      with that show ?thesis by (simp add: word_less_nat_alt)
    qed
    have p12: "unat (12 + pdulen) = 12 + unat pdulen" if "unat pdulen \<le> unat l - 16"
      using that lmax l16 by (simp add: unat_word_ariths)
    have t: "12 + unat pdulen + 4 + unat textlen \<le> unat l"
      if "unat pdulen \<le> unat l - 16" "\<not> textlen > of_nat (length data - (12 + unat pdulen + 4))"
    proof -
      have "unat (of_nat (length data - (16 + unat pdulen)) :: u32) = unat l - (16 + unat pdulen)"
        using lmax by (simp add: len unat_of_nat)
      with that l16 show ?thesis by (simp add: word_less_nat_alt)
    qed
    have sl: "slice data0 0 (unat l) = (Inr data :: (rtr_error, bytes) res)"
      using le by (simp add: slice_def data_def)
    show ?thesis
      using False l n len l16 p p12 t
      by (auto simp: RTRErrorReport_Decode_def byte_simps res_simps sl Let_def guard_err_def
          l_def [symmetric] pdulen_def [symmetric] textlen_def [symmetric]
          simp del: length_greater_0_conv)
  qed
  show ?thesis
    using False * by (cases "l < 16"; cases "(of_nat (length data0) :: u32) < l")
      (auto simp: RTRErrorReport_Decode_def byte_simps res_simps l_def
        simp del: length_greater_0_conv)
qed

lemma rtr_fixed_decoders_no_panic:
  "no_panic (RTRCommon_Decode data)" "no_panic (RTRReset_Decode data)"
  "no_panic (RTRCacheResponse_Decode data)"
  by (auto simp: RTRCommon_Decode_def RTRReset_Decode_def RTRCacheResponse_Decode_def
      byte_simps guard_err_def simp del: length_greater_0_conv)

text \<open>C20: Whatever bytes arrive from an RPKI cache server, \<open>ParseRTR\<close> returns a PDU or an
  error; no index or slice expression of the parser or of the decoders it calls is out of
  range.\<close>

theorem ParseRTR_no_panic: "no_panic (ParseRTR data)"
  by (cases "length data < 8")
     (simp_all add: ParseRTR_def byte_simps res_simps
       rtr_fixed_decoders_no_panic RTRIPPrefix_Decode_no_panic RTRErrorReport_Decode_no_panic)

text \<open>C19: Every PDU that the constructors of the package can build with lengths in range is
  serialised without error, and parsing the bytes gives the same PDU back.\<close>

theorem RTR_roundtrip:
  assumes "rtr_wf m"
  shows "\<exists>bs. RTR_Serialize m = Inr bs \<and> ParseRTR bs = Inr m"
  using assms by (rule rtr_codec.enc_dec)

theorem RTR_roundtrip_witness:
  "\<exists>bs. RTR_Serialize (NewRTRSerialQuery 7 42) = Inr bs \<and> ParseRTR bs = Inr (NewRTRSerialQuery 7 42)"
  by (rule RTR_roundtrip) (simp add: NewRTRSerialQuery_def)

text \<open>C21: A stream of serialised PDUs, none longer than the 65535 bytes the client accepts,
  is cut by the client's receive loop into exactly those PDUs, in order, and each parses
  back to the message that was sent.\<close>

theorem established_receives_stream:
  assumes "list_all2 (\<lambda>m bs. rtr_wf m \<and> RTR_Serialize m = Inr bs \<and> length bs \<le> 65535) ms bss"
  shows "established (concat bss) = bss \<and> map ParseRTR (established (concat bss)) = map Inr ms"
  using assms by (rule rtr_stream.loop_stream)

theorem established_receives_stream_witness:
  "established (concat [[0, 3, 0, 9, 0, 0, 0, 8], [0, 8, 0, 0, 0, 0, 0, 8]]) =
     [[0, 3, 0, 9, 0, 0, 0, 8], [0, 8, 0, 0, 0, 0, 0, 8]]"
proof -
  have zeros: "replicate 2 (0 :: u8) = [0, 0]" by code_simp
  have "list_all2 (\<lambda>m bs. rtr_wf m \<and> RTR_Serialize m = Inr bs \<and> length bs \<le> 65535)
     [NewRTRCacheResponse 9, NewRTRCacheReset]
     [[0, 3, 0, 9, 0, 0, 0, 8], [0, 8, 0, 0, 0, 0, 0, 8]]"
    by (simp add: NewRTRCacheResponse_def NewRTRCacheReset_def RTRCacheResponse_layout
        RTRReset_layout to_be_numeral zeros)
  then show ?thesis using established_receives_stream by blast
qed

end
