(* ===== verification/Rpki.thy ===== *)
theory Rpki
  imports Roa Rtr_Packet
begin

section \<open>The RPKI client: \<open>pkg/server/rpki.go\<close>\<close>

text \<open>
  The manager of the RTR sessions. It keeps a client for each cache server and turns the events of
  the clients into operations on the table of ROAs.

  \<^item> Everything the manager and its handlers do outside their own state is an effect:
    a write to a connection, its closing, the start of a goroutine, and the start and the stop
    of the lifetime timer. A handler returns the effects it has, in order.
  \<^item> The environment of a handler is the time and whether a write to the connection succeeds.
  \<^item> A connection is a number, and so is a timer: the number of timers its client had started
    before (\<open>timersStarted\<close>, a field that the code does not have).
  \<^item> The goroutine \<open>established\<close> begins with a \<open>softReset\<close> of the client; that step is
    \<open>established_begin\<close>, and what it reads then are the \<open>roaRTR\<close> events. It is one step here,
    although the goroutine takes no lock. \<open>tryConnect\<close> dials until it has a connection; its
    outcome is the \<open>roaConnected\<close> event.
  \<^item> The list that \<open>GetServers\<close> builds from the clients is left out: it parses the addresses
    with \<open>netip.MustParseAddr\<close>. The state it refreshes in each client is modelled.
  \<^item> The map of clients is a list of its entries; a loop over it goes through the list. Go
    fixes no order for it, and the list may be in any order.
\<close>

subsection \<open>Addresses with a port\<close>

text \<open>\<open>net.SplitHostPort\<close> and \<open>net.JoinHostPort\<close> of the standard library. The error is
  the explanation of the \<open>AddrError\<close>.\<close>

fun IndexByte :: "string \<Rightarrow> char \<Rightarrow> nat option" where
  "IndexByte [] c = None"
| "IndexByte (x # xs) c = (if x = c then Some 0 else map_option Suc (IndexByte xs c))"

definition LastIndexByte :: "string \<Rightarrow> char \<Rightarrow> nat option" where
  "LastIndexByte s c = map_option (\<lambda>i. length s - 1 - i) (IndexByte (rev s) c)"

definition split_tail :: "string \<Rightarrow> nat \<Rightarrow> nat \<Rightarrow> nat \<Rightarrow> string \<Rightarrow> (string, string \<times> string) res" where
  "split_tail hostport i j k host =
     guard_err (IndexByte (drop j hostport) CHR ''['' \<noteq> None) ''unexpected '[' in address''
    (guard_err (IndexByte (drop k hostport) CHR '']'' \<noteq> None) ''unexpected ']' in address''
      (Inr (host, drop (i + 1) hostport)))"

definition SplitHostPort :: "string \<Rightarrow> (string, string \<times> string) res" where
  "SplitHostPort hostport =
     (case LastIndexByte hostport CHR '':'' of
        None \<Rightarrow> Inl (Err ''missing port in address'')
      | Some i \<Rightarrow>
          if hd hostport = CHR ''['' then
            (case IndexByte hostport CHR '']'' of
               None \<Rightarrow> Inl (Err ''missing ']' in address'')
             | Some e \<Rightarrow>
                 if e + 1 = length hostport then Inl (Err ''missing port in address'')
                 else if e + 1 \<noteq> i then
                   (if hostport ! (e + 1) = CHR '':'' then Inl (Err ''too many colons in address'')
                    else Inl (Err ''missing port in address''))
                 else split_tail hostport i 1 (e + 1) (drop 1 (take e hostport)))
          else guard_err (IndexByte (take i hostport) CHR '':'' \<noteq> None) ''too many colons in address''
            (split_tail hostport i 0 0 (take i hostport)))"

definition JoinHostPort :: "string \<Rightarrow> string \<Rightarrow> string" where
  "JoinHostPort host port =
     (if IndexByte host CHR '':'' \<noteq> None then ''['' @ host @ '']:'' @ port else host @ '':'' @ port)"

text \<open>\<open>strconv.Itoa\<close> for a number that is not negative.\<close>

fun Itoa :: "nat \<Rightarrow> string" where
  "Itoa n = (if n < 10 then [char_of (48 + n)] else Itoa (n div 10) @ [char_of (48 + n mod 10)])"

declare Itoa.simps [simp del]

subsection \<open>Clients\<close>

type_synonym s64 = "64 word"

record RpkiReceived =
  SerialNotify :: s64
  CacheReset :: s64
  CacheResponse :: s64
  Ipv4Prefix :: s64
  Ipv6Prefix :: s64
  EndOfData :: s64
  ErrorReports :: s64

record RpkiSent =
  SerialQuery :: s64
  ResetQuery :: s64
  sent_Error :: s64

record RpkiServerState =
  state_Up :: bool
  SerialNumber :: u32
  RecordsV4 :: u32
  RecordsV6 :: u32
  PrefixesV4 :: u32
  PrefixesV6 :: u32
  Uptime :: int
  Downtime :: int
  LastPduRecvTime :: int
  RpkiReceived_of :: RpkiReceived
  RpkiSent_of :: RpkiSent

record roaClient =
  host :: string
  conn :: "nat option"
  state :: RpkiServerState
  sessionID :: u16
  oldSessionID :: u16
  serialNumber :: u32
  timer :: "nat option"
  timersStarted :: nat
  lifetime :: int
  endOfData :: bool
  pendingROAs :: "ROA list"
  cancelled :: bool

definition zero_received :: RpkiReceived where
  "zero_received = \<lparr>SerialNotify = 0, CacheReset = 0, CacheResponse = 0, Ipv4Prefix = 0, Ipv6Prefix = 0,
     EndOfData = 0, ErrorReports = 0\<rparr>"

definition zero_sent :: RpkiSent where
  "zero_sent = \<lparr>SerialQuery = 0, ResetQuery = 0, sent_Error = 0\<rparr>"

definition zero_state :: RpkiServerState where
  "zero_state = \<lparr>state_Up = False, SerialNumber = 0, RecordsV4 = 0, RecordsV6 = 0, PrefixesV4 = 0, PrefixesV6 = 0,
     Uptime = 0, Downtime = 0, LastPduRecvTime = 0, RpkiReceived_of = zero_received, RpkiSent_of = zero_sent\<rparr>"

datatype rpki_effect =
    Write nat bytes
  | Close nat
  | GoTryConnect string
  | GoEstablished string
  | AfterFunc nat int
  | StopTimer nat

datatype rpki_error =
    AddrError string
  | ServerExists string
  | ServerDoesNotExist string
  | ServerNotFound string
  | WriteFailed

record rpki_env =
  unix_now :: int
  write_ok :: bool

definition newRoaClient :: "string \<Rightarrow> string \<Rightarrow> int \<Rightarrow> roaClient \<times> rpki_effect list" where
  "newRoaClient address port life =
     (let h = JoinHostPort address port
      in (\<lparr>host = h, conn = None, state = zero_state, sessionID = 0, oldSessionID = 0, serialNumber = 0,
           timer = None, timersStarted = 0, lifetime = life, endOfData = False, pendingROAs = [], cancelled = False\<rparr>,
          [GoTryConnect h]))"

definition count_sent :: "(RpkiSent \<Rightarrow> RpkiSent) \<Rightarrow> roaClient \<Rightarrow> roaClient" where
  "count_sent f c = c\<lparr>state := (state c)\<lparr>RpkiSent_of := f (RpkiSent_of (state c))\<rparr>\<rparr>"

definition count_received :: "(RpkiReceived \<Rightarrow> RpkiReceived) \<Rightarrow> roaClient \<Rightarrow> roaClient" where
  "count_received f c = c\<lparr>state := (state c)\<lparr>RpkiReceived_of := f (RpkiReceived_of (state c))\<rparr>\<rparr>"

definition serialized :: "RTRMessage \<Rightarrow> bytes" where
  "serialized m = (case RTR_Serialize m of Inr data \<Rightarrow> data | Inl _ \<Rightarrow> [])"

definition client_enable :: "rpki_env \<Rightarrow> u32 \<Rightarrow> roaClient \<Rightarrow> roaClient \<times> rpki_effect list \<times> rpki_error option" where
  "client_enable env serial c =
     (case conn c of
        None \<Rightarrow> (c, [], None)
      | Some k \<Rightarrow>
          if write_ok env
          then (count_sent (SerialQuery_update (\<lambda>n. n + 1)) c,
                [Write k (serialized (NewRTRSerialQuery (sessionID c) serial))], None)
          else (c, [], Some WriteFailed))"

definition softReset :: "rpki_env \<Rightarrow> roaClient \<Rightarrow> roaClient \<times> rpki_effect list \<times> rpki_error option" where
  "softReset env c =
     (case conn c of
        None \<Rightarrow> (c, [], None)
      | Some k \<Rightarrow>
          if write_ok env
          then ((count_sent (ResetQuery_update (\<lambda>n. n + 1)) c)\<lparr>endOfData := False, pendingROAs := []\<rparr>,
                [Write k (serialized NewRTRResetQuery)], None)
          else (c, [], Some WriteFailed))"

definition client_reset :: "roaClient \<Rightarrow> rpki_effect list" where
  "client_reset c = (case conn c of None \<Rightarrow> [] | Some k \<Rightarrow> [Close k])"

definition client_stop :: "roaClient \<Rightarrow> roaClient \<times> rpki_effect list" where
  "client_stop c = (c\<lparr>cancelled := True\<rparr>, client_reset c)"

subsection \<open>The manager\<close>

record 't roaManager =
  clientMap :: "(string \<times> roaClient) list"
  table :: "'t ROATable"

definition newROAManager :: "'t ROATable \<Rightarrow> 't roaManager" where
  "newROAManager rt = \<lparr>clientMap = [], table = rt\<rparr>"

definition enabled :: "'t roaManager \<Rightarrow> bool" where
  "enabled m \<longleftrightarrow> length (clientMap m) \<noteq> 0"

definition put_client :: "string \<Rightarrow> roaClient \<Rightarrow> 't roaManager \<Rightarrow> 't roaManager" where
  "put_client key c m = m\<lparr>clientMap := map (\<lambda>(k, c'). if k = key then (k, c) else (k, c')) (clientMap m)\<rparr>"

definition AddServer :: "string \<Rightarrow> int \<Rightarrow> 't roaManager \<Rightarrow> (rpki_error, 't roaManager \<times> rpki_effect list) res" where
  "AddServer hst life m =
     (case SplitHostPort hst of
        Inl (Err e) \<Rightarrow> Inl (Err (AddrError e))
      | Inl Panic \<Rightarrow> Inl Panic
      | Inr (address, port) \<Rightarrow>
          let life' = (if life = 0 then 3600 else life)
          in guard_err (map_of (clientMap m) hst \<noteq> None) (ServerExists hst)
            (let (c, effs) = newRoaClient address port life'
             in Inr (m\<lparr>clientMap := clientMap m @ [(hst, c)]\<rparr>, effs)))"

definition DeleteServer :: "'t net_tree \<Rightarrow> string \<Rightarrow> 't roaManager \<Rightarrow> (rpki_error, 't roaManager \<times> rpki_effect list) res" where
  "DeleteServer ops hst m =
     (case map_of (clientMap m) hst of
        None \<Rightarrow> Inl (Err (ServerDoesNotExist hst))
      | Some c \<Rightarrow>
          let (_, effs) = client_stop c
          in Inr (m\<lparr>clientMap := filter (\<lambda>e. fst e \<noteq> hst) (clientMap m), table := roa_DeleteAll ops hst (table m)\<rparr>, effs))"

definition host_of :: "string \<Rightarrow> string" where
  "host_of net = (case SplitHostPort net of Inr (add, _) \<Rightarrow> add | Inl _ \<Rightarrow> '''')"

definition find_server :: "string \<Rightarrow> 't roaManager \<Rightarrow> (string \<times> roaClient) option" where
  "find_server address m = find (\<lambda>e. host_of (fst e) = address) (clientMap m)"

definition Enable :: "rpki_env \<Rightarrow> string \<Rightarrow> 't roaManager \<Rightarrow> 't roaManager \<times> rpki_effect list \<times> rpki_error option" where
  "Enable env address m =
     (case find_server address m of
        None \<Rightarrow> (m, [], Some (ServerNotFound address))
      | Some (net, c) \<Rightarrow>
          let (c', effs, err) = client_enable env (serialNumber c) c in (put_client net c' m, effs, err))"

definition Disable :: "'t net_tree \<Rightarrow> string \<Rightarrow> 't roaManager \<Rightarrow> 't roaManager \<times> rpki_effect list \<times> rpki_error option" where
  "Disable ops address m =
     (case find_server address m of
        None \<Rightarrow> (m, [], Some (ServerNotFound address))
      | Some (net, c) \<Rightarrow> (m\<lparr>table := roa_DeleteAll ops net (table m)\<rparr>, client_reset c, None))"

definition Reset :: "'t net_tree \<Rightarrow> string \<Rightarrow> 't roaManager \<Rightarrow> 't roaManager \<times> rpki_effect list \<times> rpki_error option" where
  "Reset ops address m = Disable ops address m"

definition SoftReset :: "'t net_tree \<Rightarrow> rpki_env \<Rightarrow> string \<Rightarrow> 't roaManager \<Rightarrow>
    't roaManager \<times> rpki_effect list \<times> rpki_error option" where
  "SoftReset ops env address m =
     (case find_server address m of
        None \<Rightarrow> (m, [], Some (ServerNotFound address))
      | Some (net, c) \<Rightarrow>
          let m1 = m\<lparr>table := roa_DeleteAll ops net (table m)\<rparr>; (c', effs, err) = softReset env c
          in (put_client net c' m1, effs, err))"

subsection \<open>Events\<close>

datatype roaEventType = roaConnected | roaDisconnected | roaRTR | roaLifetimeout

record roaEvent =
  EventType :: roaEventType
  ev_Src :: string
  Data :: bytes
  ev_conn :: nat

definition before :: "u32 \<Rightarrow> u32 \<Rightarrow> bool" where
  "before a b \<longleftrightarrow> sint (a - b) < 0"

definition roa_of :: "string \<Rightarrow> RTRIPPrefix \<Rightarrow> ROA" where
  "roa_of src msg =
     NewROA (if ipp_Type msg = RTR_IPV4_PREFIX then AFI_IP else AFI_IP6)
       (AsSlice (ipp_Prefix msg)) (ipp_PrefixLen msg) (ipp_MaxLen msg) (ipp_AS msg) src"

definition handle_prefix :: "'t net_tree \<Rightarrow> RTRIPPrefix \<Rightarrow> roaClient \<Rightarrow> 't ROATable \<Rightarrow> roaClient \<times> 't ROATable" where
  "handle_prefix ops msg c rt =
     (let c1 = (if ipp_Type msg = RTR_IPV4_PREFIX then count_received (Ipv4Prefix_update (\<lambda>n. n + 1)) c
                else count_received (Ipv6Prefix_update (\<lambda>n. n + 1)) c);
          roa = roa_of (host c) msg
      in if and (ipp_Flags msg) 1 = 1
         then if endOfData c1 then (c1, roa_Add ops roa rt) else (c1\<lparr>pendingROAs := pendingROAs c1 @ [roa]\<rparr>, rt)
         else (c1, roa_Delete ops roa rt))"

definition handle_end :: "'t net_tree \<Rightarrow> RTRCommon \<Rightarrow> roaClient \<Rightarrow> 't ROATable \<Rightarrow>
    roaClient \<times> 't ROATable \<times> rpki_effect list" where
  "handle_end ops msg c rt =
     (let c1 = count_received (EndOfData_update (\<lambda>n. n + 1)) c;
          rt1 = (if sessionID c1 \<noteq> com_SessionID msg then roa_DeleteAll ops (host c1) rt else rt);
          c2 = c1\<lparr>sessionID := com_SessionID msg, serialNumber := com_SerialNumber msg, endOfData := True\<rparr>;
          effs = (case timer c2 of None \<Rightarrow> [] | Some t \<Rightarrow> [StopTimer t]);
          rt2 = fold (roa_Add ops) (pendingROAs c2) rt1
      in (c2\<lparr>timer := None, pendingROAs := []\<rparr>, rt2, effs))"

definition handle_notify :: "rpki_env \<Rightarrow> RTRCommon \<Rightarrow> roaClient \<Rightarrow> roaClient \<times> rpki_effect list" where
  "handle_notify env msg c =
     (let (c1, effs, _) =
            (if before (serialNumber c) (com_SerialNumber msg) then client_enable env (serialNumber c) c
             else if serialNumber c = com_SerialNumber msg then (c, [], None)
             else softReset env c)
      in (count_received (SerialNotify_update (\<lambda>n. n + 1)) c1, effs))"

definition handleRTRMsg :: "'t net_tree \<Rightarrow> rpki_env \<Rightarrow> bytes \<Rightarrow> roaClient \<Rightarrow> 't ROATable \<Rightarrow>
    roaClient \<times> 't ROATable \<times> rpki_effect list" where
  "handleRTRMsg ops env buf c rt =
     (case ParseRTR buf of
        Inl _ \<Rightarrow> (c, rt, [])
      | Inr (RTRSerialNotify msg) \<Rightarrow> let (c', effs) = handle_notify env msg c in (c', rt, effs)
      | Inr (RTRSerialQuery msg) \<Rightarrow> (c, rt, [])
      | Inr (RTRResetQuery msg) \<Rightarrow> (c, rt, [])
      | Inr (RTRCacheResponseMsg msg) \<Rightarrow>
          ((count_received (CacheResponse_update (\<lambda>n. n + 1)) c)\<lparr>endOfData := False\<rparr>, rt, [])
      | Inr (RTRIPPrefixMsg msg) \<Rightarrow> let (c', rt') = handle_prefix ops msg c rt in (c', rt', [])
      | Inr (RTREndOfData msg) \<Rightarrow> handle_end ops msg c rt
      | Inr (RTRCacheReset msg) \<Rightarrow>
          let (c', effs, _) = softReset env c in (count_received (CacheReset_update (\<lambda>n. n + 1)) c', rt, effs)
      | Inr (RTRErrorReportMsg msg) \<Rightarrow> (count_received (ErrorReports_update (\<lambda>n. n + 1)) c, rt, []))"

definition handle_disconnected :: "rpki_env \<Rightarrow> roaClient \<Rightarrow> roaClient \<times> rpki_effect list" where
  "handle_disconnected env c =
     (c\<lparr>state := (state c)\<lparr>Downtime := unix_now env, RpkiReceived_of := zero_received, RpkiSent_of := zero_sent\<rparr>,
        endOfData := False, pendingROAs := [], conn := None,
        timer := Some (timersStarted c), timersStarted := timersStarted c + 1,
        oldSessionID := sessionID c\<rparr>,
      [GoTryConnect (host c), AfterFunc (timersStarted c) (lifetime c)])"

definition HandleROAEvent :: "'t net_tree \<Rightarrow> rpki_env \<Rightarrow> roaEvent \<Rightarrow> 't roaManager \<Rightarrow> 't roaManager \<times> rpki_effect list" where
  "HandleROAEvent ops env ev m =
     (case map_of (clientMap m) (ev_Src ev) of
        None \<Rightarrow> (m, if EventType ev = roaConnected then [Close (ev_conn ev)] else [])
      | Some c \<Rightarrow>
          (case EventType ev of
             roaDisconnected \<Rightarrow>
               let (c', effs) = handle_disconnected env c in (put_client (ev_Src ev) c' m, effs)
           | roaConnected \<Rightarrow>
               (put_client (ev_Src ev) (c\<lparr>conn := Some (ev_conn ev), state := (state c)\<lparr>Uptime := unix_now env\<rparr>\<rparr>) m,
                [GoEstablished (host c)])
           | roaRTR \<Rightarrow>
               let (c', rt, effs) = handleRTRMsg ops env (Data ev) c (table m)
               in ((put_client (ev_Src ev) c' m)\<lparr>table := rt\<rparr>, effs)
           | roaLifetimeout \<Rightarrow>
               (if oldSessionID c \<noteq> sessionID c then m else m\<lparr>table := roa_DeleteAll ops (host c) (table m)\<rparr>, [])))"

definition lifetimeout :: "roaClient \<Rightarrow> roaEvent" where
  "lifetimeout c = \<lparr>EventType = roaLifetimeout, ev_Src = host c, Data = [], ev_conn = 0\<rparr>"

text \<open>The first step of the goroutine that reads a new connection. If the query cannot be sent
  the goroutine closes the connection and reports it as lost.\<close>

definition established_begin :: "rpki_env \<Rightarrow> string \<Rightarrow> 't roaManager \<Rightarrow> 't roaManager \<times> rpki_effect list" where
  "established_begin env key m =
     (case map_of (clientMap m) key of
        None \<Rightarrow> (m, [])
      | Some c \<Rightarrow>
          let (c', effs, err) = softReset env c
          in (put_client key c' m, if err = None then effs else effs @ client_reset c))"

text \<open>The part of \<open>GetServers\<close> that refreshes the state of a client.\<close>

definition refresh_state :: "'t net_tree \<Rightarrow> 't ROATable \<Rightarrow> roaClient \<Rightarrow> roaClient" where
  "refresh_state ops rt c =
     (let (recordsV4, prefixesV4) = roa_Info ops RF_IPv4_UC rt; (recordsV6, prefixesV6) = roa_Info ops RF_IPv6_UC rt
      in c\<lparr>state := (state c)\<lparr>state_Up := conn c \<noteq> None,
           RecordsV4 := recordsV4 (host c), RecordsV6 := recordsV6 (host c),
           PrefixesV4 := prefixesV4 (host c), PrefixesV6 := prefixesV6 (host c),
           SerialNumber := serialNumber c\<rparr>\<rparr>)"

subsection \<open>The requests of \<open>pkg/server/server.go\<close>\<close>

definition AddRpki :: "string \<Rightarrow> u32 \<Rightarrow> int \<Rightarrow> 't roaManager \<Rightarrow> (rpki_error, 't roaManager \<times> rpki_effect list) res" where
  "AddRpki address port life m = AddServer (JoinHostPort address (Itoa (unat port))) life m"

definition DeleteRpki :: "'t net_tree \<Rightarrow> string \<Rightarrow> u32 \<Rightarrow> 't roaManager \<Rightarrow> (rpki_error, 't roaManager \<times> rpki_effect list) res" where
  "DeleteRpki ops address port m = DeleteServer ops address m"

definition ResetRpki :: "'t net_tree \<Rightarrow> rpki_env \<Rightarrow> string \<Rightarrow> bool \<Rightarrow> 't roaManager \<Rightarrow>
    't roaManager \<times> rpki_effect list \<times> rpki_error option" where
  "ResetRpki ops env address soft m = (if soft then SoftReset ops env address m else Reset ops address m)"

subsection \<open>Addresses split and join\<close>

lemma IndexByte_None [simp]: "IndexByte s c = None \<longleftrightarrow> c \<notin> set s"
  by (induction s) auto

lemma IndexByte_first [simp]: "c \<notin> set xs \<Longrightarrow> IndexByte (xs @ c # ys) c = Some (length xs)"
  by (induction xs) auto

lemma LastIndexByte_last [simp]: "c \<notin> set ys \<Longrightarrow> LastIndexByte (xs @ c # ys) c = Some (length xs)"
  by (simp add: LastIndexByte_def)

definition plain :: "string \<Rightarrow> bool" where
  "plain s \<longleftrightarrow> CHR ''['' \<notin> set s \<and> CHR '']'' \<notin> set s"

lemma plain_hd: "plain s \<Longrightarrow> s \<noteq> [] \<Longrightarrow> hd s \<noteq> CHR ''[''"
  by (cases s) (auto simp: plain_def)

lemma SplitHostPort_JoinHostPort:
  assumes "plain address" and "plain port" and "CHR '':'' \<notin> set port"
  shows "SplitHostPort (JoinHostPort address port) = Inr (address, port)"
proof (cases "CHR '':'' \<in> set address")
  case True
  have s: "JoinHostPort address port = (CHR ''['' # address @ [CHR '']'']) @ CHR '':'' # port"
    "JoinHostPort address port = (CHR ''['' # address) @ CHR '']'' # CHR '':'' # port"
    using True by (simp_all add: JoinHostPort_def)
  have "LastIndexByte (JoinHostPort address port) CHR '':'' = Some (length address + 2)"
    unfolding s(1) using assms(3) by (subst LastIndexByte_last) simp_all
  moreover have "IndexByte (JoinHostPort address port) CHR '']'' = Some (length address + 1)"
    unfolding s(2) using assms(1) by (subst IndexByte_first) (simp_all add: plain_def)
  ultimately show ?thesis
    using assms by (simp add: SplitHostPort_def s(2) split_tail_def plain_def guard_err_def)
next
  case False
  have s: "JoinHostPort address port = address @ CHR '':'' # port" using False by (simp add: JoinHostPort_def)
  have "LastIndexByte (JoinHostPort address port) CHR '':'' = Some (length address)"
    unfolding s using assms(3) by simp
  moreover have "hd (JoinHostPort address port) \<noteq> CHR ''[''"
    unfolding s using plain_hd [OF assms(1)] by (cases address) simp_all
  ultimately show ?thesis
    using assms False by (simp add: SplitHostPort_def s split_tail_def plain_def guard_err_def)
qed

lemma Itoa_digits: "c \<in> set (Itoa n) \<Longrightarrow> \<exists>d < 10. c = char_of (48 + d :: nat)"
proof (induction n rule: Itoa.induct)
  case (1 n)
  then show ?case by (subst (asm) (2) Itoa.simps) (auto split: if_splits intro: exI [of _ n] exI [of _ "n mod 10"])
qed

lemma Itoa_plain: "plain (Itoa n)" "CHR '':'' \<notin> set (Itoa n)"
proof -
  have "c \<noteq> CHR ''['' \<and> c \<noteq> CHR '']'' \<and> c \<noteq> CHR '':''" if digit: "c \<in> set (Itoa n)" for c
  proof -
    obtain d where d: "d < 10" "c = char_of (48 + d :: nat)" using Itoa_digits [OF digit] by auto
    then have "of_char c = 48 + d" by (simp add: of_char_of)
    then show ?thesis using d(1) by auto
  qed
  then show "plain (Itoa n)" "CHR '':'' \<notin> set (Itoa n)" by (auto simp: plain_def)
qed

lemma SplitHostPort_AddRpki:
  "plain address \<Longrightarrow> SplitHostPort (JoinHostPort address (Itoa n)) = Inr (address, Itoa n)"
  by (rule SplitHostPort_JoinHostPort) (simp_all add: Itoa_plain)

text \<open>An address as it is written: a host name or an IPv4 address has no colon, an IPv6 address at least
  two; none has brackets.\<close>

definition address_text :: "string \<Rightarrow> bool" where
  "address_text a \<longleftrightarrow> plain a \<and> length (filter (\<lambda>c. c = CHR '':'') a) \<noteq> 1"

lemma address_not_key:
  assumes "address_text a"
  shows "JoinHostPort address (Itoa n) \<noteq> a"
proof
  assume a: "JoinHostPort address (Itoa n) = a"
  show False
  proof (cases "CHR '':'' \<in> set address")
    case True
    then have "CHR ''['' \<in> set a" unfolding a [symmetric] by (simp add: JoinHostPort_def)
    then show False using assms by (simp add: address_text_def plain_def)
  next
    case False
    have none: "filter (\<lambda>c. c = CHR '':'') s = []" if "CHR '':'' \<notin> set s" for s
      using that by (auto simp: filter_empty_conv)
    have "filter (\<lambda>c. c = CHR '':'') a = [CHR '':'']"
      unfolding a [symmetric] using none [OF False] none [OF Itoa_plain(2) [of n]] False by (simp add: JoinHostPort_def)
    then show False using assms by (simp add: address_text_def)
  qed
qed

subsection \<open>A response of the cache\<close>

definition rtr_event :: "string \<Rightarrow> bytes \<Rightarrow> roaEvent" where
  "rtr_event src buf = \<lparr>EventType = roaRTR, ev_Src = src, Data = buf, ev_conn = 0\<rparr>"

definition deliver :: "'t net_tree \<Rightarrow> rpki_env \<Rightarrow> string \<Rightarrow> bytes list \<Rightarrow> 't roaManager \<Rightarrow> 't roaManager" where
  "deliver ops env key bufs m = fold (\<lambda>buf m. fst (HandleROAEvent ops env (rtr_event key buf) m)) bufs m"

fun receive :: "'t net_tree \<Rightarrow> rpki_env \<Rightarrow> bytes list \<Rightarrow> roaClient \<times> 't ROATable \<Rightarrow> roaClient \<times> 't ROATable" where
  "receive ops env [] (c, rt) = (c, rt)"
| "receive ops env (buf # bufs) (c, rt) =
     (let (c', rt', _) = handleRTRMsg ops env buf c rt in receive ops env bufs (c', rt'))"

lemma map_of_put [simp]:
  "map_of (clientMap (put_client key c m)) k =
     (if k = key \<and> map_of (clientMap m) key \<noteq> None then Some c else map_of (clientMap m) k)"
proof -
  have "map_of (map (\<lambda>(k, c'). if k = key then (k, c) else (k, c')) xs) k =
      (if k = key \<and> map_of xs key \<noteq> None then Some c else map_of xs k)" for xs
    by (induction xs) auto
  then show ?thesis by (simp add: put_client_def)
qed

lemma put_client_table [simp]: "table (put_client key c m) = table m" "map fst (clientMap (put_client key c m)) = map fst (clientMap m)"
  by (auto simp: put_client_def intro!: map_cong)

lemma deliver_receive:
  assumes "map_of (clientMap m) key = Some c"
  shows "map_of (clientMap (deliver ops env key bufs m)) key = Some (fst (receive ops env bufs (c, table m))) \<and>
    table (deliver ops env key bufs m) = snd (receive ops env bufs (c, table m))"
  using assms
proof (induction bufs arbitrary: c m)
  case (Cons buf bufs)
  obtain c' rt' effs where h: "handleRTRMsg ops env buf c (table m) = (c', rt', effs)" by (metis prod_cases3)
  let ?m = "fst (HandleROAEvent ops env (rtr_event key buf) m)"
  have "map_of (clientMap ?m) key = Some c'" "table ?m = rt'"
    using Cons.prems h by (simp_all add: HandleROAEvent_def rtr_event_def)
  then show ?case using Cons.IH [of ?m c'] h by (simp add: deliver_def)
qed (simp add: deliver_def)

definition announcing :: "RTRIPPrefix \<Rightarrow> bool" where
  "announcing msg \<longleftrightarrow> and (ipp_Flags msg) 1 = 1"

definition client_same :: "roaClient \<Rightarrow> roaClient \<Rightarrow> bool" where
  "client_same c c' \<longleftrightarrow> host c' = host c \<and> sessionID c' = sessionID c \<and> serialNumber c' = serialNumber c \<and>
     timer c' = timer c \<and> conn c' = conn c"

lemma client_same_trans: "client_same c1 c2 \<Longrightarrow> client_same c2 c3 \<Longrightarrow> client_same c1 c3"
  by (simp add: client_same_def)

lemma count_received_simps [simp]:
  "host (count_received f c) = host c" "sessionID (count_received f c) = sessionID c" "oldSessionID (count_received f c) = oldSessionID c"
  "serialNumber (count_received f c) = serialNumber c" "timer (count_received f c) = timer c"
  "conn (count_received f c) = conn c" "endOfData (count_received f c) = endOfData c"
  "pendingROAs (count_received f c) = pendingROAs c"
  "host (count_sent g c) = host c" "sessionID (count_sent g c) = sessionID c" "oldSessionID (count_sent g c) = oldSessionID c"
  "serialNumber (count_sent g c) = serialNumber c" "timer (count_sent g c) = timer c"
  "conn (count_sent g c) = conn c" "endOfData (count_sent g c) = endOfData c"
  "pendingROAs (count_sent g c) = pendingROAs c"
  by (simp_all add: count_received_def count_sent_def)

lemma receive_prefixes:
  assumes "tree_laws ops NewNet" and "list_all2 (\<lambda>p buf. ParseRTR buf = Inr (RTRIPPrefixMsg p)) ps bufs"
    and "list_all (\<lambda>p. roa_ok (roa_of (host c) p)) ps" and "table_wf ops rt" and "\<not> endOfData c"
  shows "\<exists>c' rt'. (\<forall>rest. receive ops env (bufs @ rest) (c, rt) = receive ops env rest (c', rt')) \<and> client_same c c' \<and>
    \<not> endOfData c' \<and> pendingROAs c' = pendingROAs c @ map (roa_of (host c)) (filter announcing ps) \<and> table_wf ops rt' \<and>
    roa_view ops rt' = roa_view ops rt - roa_of (host c) ` set (filter (\<lambda>p. \<not> announcing p) ps)"
  using assms(2-5)
proof (induction arbitrary: c rt rule: list_all2_induct)
  case Nil
  then show ?case by (auto simp: client_same_def)
next
  case (Cons p ps buf bufs)
  let ?r = "roa_of (host c) p"
  obtain c1 rt1 where h: "handle_prefix ops p c rt = (c1, rt1)" by fastforce
  have 1: "client_same c c1" "\<not> endOfData c1" "pendingROAs c1 = pendingROAs c @ (if announcing p then [?r] else [])"
    using h Cons.prems(3) by (auto simp: handle_prefix_def client_same_def announcing_def Let_def split: if_splits)
  have 2: "table_wf ops rt1" "roa_view ops rt1 = (if announcing p then roa_view ops rt else roa_view ops rt - {?r})"
  proof -
    have "roa_ok ?r" using Cons.prems(1) by simp
    note d = roa_Delete_spec [OF assms(1) Cons.prems(2) this]
    have "rt1 = (if announcing p then rt else roa_Delete ops ?r rt)"
      using h Cons.prems(3) by (auto simp: handle_prefix_def announcing_def Let_def split: if_splits)
    then show "table_wf ops rt1" "roa_view ops rt1 = (if announcing p then roa_view ops rt else roa_view ops rt - {?r})"
      using d Cons.prems(2) by simp_all
  qed
  have host: "host c1 = host c" using 1(1) by (simp add: client_same_def)
  have step: "receive ops env ((buf # bufs) @ rest) (c, rt) = receive ops env (bufs @ rest) (c1, rt1)" for rest
    using Cons.hyps(1) h by (simp add: handleRTRMsg_def)
  obtain c' rt' where IH: "\<And>rest. receive ops env (bufs @ rest) (c1, rt1) = receive ops env rest (c', rt')" "client_same c1 c'"
      "\<not> endOfData c'" "pendingROAs c' = pendingROAs c1 @ map (roa_of (host c)) (filter announcing ps)" "table_wf ops rt'"
      "roa_view ops rt' = roa_view ops rt1 - roa_of (host c) ` set (filter (\<lambda>p. \<not> announcing p) ps)"
    using Cons.IH [of c1 rt1] Cons.prems(1) 1(2) 2(1) unfolding host by auto
  show ?case
    using IH step client_same_trans [OF 1(1) IH(2)] 1(3) 2(2) by (intro exI [of _ c'] exI [of _ rt']) auto
qed

lemma fold_roa_Add:
  assumes "tree_laws ops NewNet" and "list_all roa_ok rs" and "table_wf ops rt"
  shows "table_wf ops (fold (roa_Add ops) rs rt) \<and> roa_view ops (fold (roa_Add ops) rs rt) = roa_view ops rt \<union> set rs"
  using assms(2,3)
proof (induction rs arbitrary: rt)
  case (Cons r rs)
  then show ?case using roa_Add_spec [OF assms(1), of rt r] Cons.IH [of "roa_Add ops r rt"] by auto
qed simp

lemma handle_end_spec:
  assumes "tree_laws ops NewNet" and "table_wf ops rt" and "list_all roa_ok (pendingROAs c)"
  shows "\<exists>c' rt' effs. handle_end ops msg c rt = (c', rt', effs) \<and> host c' = host c \<and> sessionID c' = com_SessionID msg \<and>
    serialNumber c' = com_SerialNumber msg \<and> endOfData c' \<and> timer c' = None \<and> pendingROAs c' = [] \<and> table_wf ops rt' \<and>
    roa_view ops rt' = (if sessionID c = com_SessionID msg then roa_view ops rt
                        else {r \<in> roa_view ops rt. Src r \<noteq> host c}) \<union> set (pendingROAs c)"
proof -
  define rt1 where "rt1 = (if sessionID c \<noteq> com_SessionID msg then roa_DeleteAll ops (host c) rt else rt)"
  have 1: "table_wf ops rt1" "roa_view ops rt1 = (if sessionID c = com_SessionID msg then roa_view ops rt
      else {r \<in> roa_view ops rt. Src r \<noteq> host c})"
    using roa_DeleteAll_spec [OF assms(1,2), of "host c"] assms(2) by (auto simp: rt1_def)
  show ?thesis
    using fold_roa_Add [OF assms(1,3) 1(1)] 1(2)
    by (cases "sessionID c = com_SessionID msg") (simp_all add: handle_end_def Let_def rt1_def)
qed

definition response :: "u16 \<Rightarrow> RTRIPPrefix list \<Rightarrow> u32 \<Rightarrow> RTRMessage list" where
  "response session ps serial =
     NewRTRCacheResponse session # map RTRIPPrefixMsg ps @ [NewRTREndOfData session serial]"

definition stream_of :: "RTRMessage list \<Rightarrow> bytes" where
  "stream_of ms = concat (map serialized ms)"

lemma serialized_short:
  assumes "rtr_wf m" and "\<And>e. m \<noteq> RTRErrorReportMsg e"
  shows "RTR_Serialize m = Inr (serialized m)" "length (serialized m) \<le> 65535" "ParseRTR (serialized m) = Inr m"
proof -
  show 1: "RTR_Serialize m = Inr (serialized m)" using RTR_Serialize_total [OF assms(1)] by (auto simp: serialized_def)
  show "ParseRTR (serialized m) = Inr m" using RTR_roundtrip_aux [OF assms(1)] 1 by auto
  show "length (serialized m) \<le> 65535"
  proof (cases m)
    case (RTRIPPrefixMsg p)
    then show ?thesis using assms(1) by (cases "ipp_Prefix p") (auto simp: serialized_def rtr_layouts)
  qed (use assms in \<open>auto simp: serialized_def rtr_layouts\<close>)
qed

lemma received_messages:
  assumes "list_all rtr_wf ms" and "\<And>e. RTRErrorReportMsg e \<notin> set ms"
  shows "established (stream_of ms) = map serialized ms"
proof -
  have "list_all2 (\<lambda>m bs. rtr_wf m \<and> RTR_Serialize m = Inr bs \<and> length bs \<le> 65535) ms (map serialized ms)"
    using assms serialized_short by (fastforce simp: list_all2_conv_all_nth list_all_length in_set_conv_nth)
  then show ?thesis using rtr_stream.loop_stream [of ms "map serialized ms"] by (simp add: stream_of_def)
qed

lemma receive_response:
  assumes "tree_laws ops NewNet" and "list_all (\<lambda>p. rtr_wf (RTRIPPrefixMsg p) \<and> roa_ok (roa_of (host c) p)) ps"
    and "table_wf ops rt" and "list_all roa_ok (pendingROAs c)"
  shows "\<exists>c' rt'. receive ops env (established (stream_of (response session ps serial))) (c, rt) = (c', rt') \<and>
    host c' = host c \<and> sessionID c' = session \<and> serialNumber c' = serial \<and> endOfData c' \<and> timer c' = None \<and>
    pendingROAs c' = [] \<and> table_wf ops rt' \<and>
    roa_view ops rt' =
      (if sessionID c = session then roa_view ops rt - roa_of (host c) ` set (filter (\<lambda>p. \<not> announcing p) ps)
       else {r \<in> roa_view ops rt. Src r \<noteq> host c}) \<union>
      set (pendingROAs c) \<union> roa_of (host c) ` set (filter announcing ps)"
proof -
  have wf: "rtr_wf (NewRTRCacheResponse session)" "rtr_wf (NewRTREndOfData session serial)"
    by (simp_all add: NewRTRCacheResponse_def NewRTREndOfData_def)
  have est: "established (stream_of (response session ps serial)) =
      serialized (NewRTRCacheResponse session) # map (serialized \<circ> RTRIPPrefixMsg) ps @ [serialized (NewRTREndOfData session serial)]"
    using wf assms(2) received_messages [of "response session ps serial"]
    by (auto simp: response_def list_all_iff NewRTRCacheResponse_def NewRTREndOfData_def)
  have parse: "ParseRTR (serialized (NewRTRCacheResponse session)) = Inr (NewRTRCacheResponse session)"
      "ParseRTR (serialized (NewRTREndOfData session serial)) = Inr (NewRTREndOfData session serial)"
    by (rule serialized_short(3) [OF wf(1)], simp add: NewRTRCacheResponse_def)
       (rule serialized_short(3) [OF wf(2)], simp add: NewRTREndOfData_def)
  define c1 where "c1 = (count_received (CacheResponse_update (\<lambda>n. n + 1)) c)\<lparr>endOfData := False\<rparr>"
  have c1: "host c1 = host c" "sessionID c1 = sessionID c" "pendingROAs c1 = pendingROAs c" "\<not> endOfData c1"
    by (simp_all add: c1_def)
  have ps: "list_all2 (\<lambda>p buf. ParseRTR buf = Inr (RTRIPPrefixMsg p)) ps (map (serialized \<circ> RTRIPPrefixMsg) ps)"
    using assms(2) serialized_short(3) by (auto simp: list_all2_conv_all_nth list_all_length)
  have "list_all (\<lambda>p. roa_ok (roa_of (host c1) p)) ps" using assms(2) by (simp add: list_all_iff c1)
  then obtain c2 rt2 where 2: "\<And>rest. receive ops env (map (serialized \<circ> RTRIPPrefixMsg) ps @ rest) (c1, rt) = receive ops env rest (c2, rt2)"
      "client_same c1 c2" "pendingROAs c2 = pendingROAs c1 @ map (roa_of (host c1)) (filter announcing ps)" "table_wf ops rt2"
      "roa_view ops rt2 = roa_view ops rt - roa_of (host c1) ` set (filter (\<lambda>p. \<not> announcing p) ps)"
    using receive_prefixes [OF assms(1) ps _ assms(3) c1(4)] by blast
  have "list_all roa_ok (pendingROAs c2)" using 2(3) assms(2,4) by (auto simp: list_all_iff c1)
  then obtain c3 rt3 effs where 3: "handle_end ops \<lparr>com_Version = 0, com_Type = RTR_END_OF_DATA, com_SessionID = session,
        com_Len = 12, com_SerialNumber = serial\<rparr> c2 rt2 = (c3, rt3, effs)" "host c3 = host c2" "sessionID c3 = session"
      "serialNumber c3 = serial" "endOfData c3" "timer c3 = None" "pendingROAs c3 = []" "table_wf ops rt3"
      "roa_view ops rt3 = (if sessionID c2 = session then roa_view ops rt2
                        else {r \<in> roa_view ops rt2. Src r \<noteq> host c2}) \<union> set (pendingROAs c2)"
    using handle_end_spec [OF assms(1) 2(4)] by fastforce
  have "receive ops env (established (stream_of (response session ps serial))) (c, rt) = (c3, rt3)"
    using parse 2(1) [of "[serialized (NewRTREndOfData session serial)]"] 3(1)
    by (simp add: est handleRTRMsg_def NewRTRCacheResponse_def NewRTREndOfData_def flip: c1_def)
  moreover have "Src (roa_of (host c) p) = host c" for p by (simp add: roa_of_def NewROA_def Let_def)
  ultimately show ?thesis
    using 2(2,3,5) 3 c1 by (intro exI [of _ c3] exI [of _ rt3]) (auto simp: client_same_def)
qed

subsection \<open>The invariant of the manager\<close>

lemma Addr_lengths: "Is4 a \<Longrightarrow> length (AsSlice a) = 4" "Is6 a \<Longrightarrow> length (AsSlice a) = 16"
  by (cases a; simp)+

lemma parsed_prefix:
  assumes "ParseRTR data = Inr (RTRIPPrefixMsg msg)"
  shows "ipp_PrefixLen msg \<le> ipp_MaxLen msg \<and>
    (ipp_Type msg = RTR_IPV4_PREFIX \<and> Is4 (ipp_Prefix msg) \<and> ipp_MaxLen msg \<le> 32 \<or>
     ipp_Type msg = RTR_IPV6_PREFIX \<and> Is6 (ipp_Prefix msg) \<and> ipp_MaxLen msg \<le> 128)"
proof -
  have "data ! 1 = RTR_IPV4_PREFIX \<or> data ! 1 = RTR_IPV6_PREFIX" "RTRIPPrefix_Decode data = Inr msg"
    using assms by (auto simp: ParseRTR_def byte_simps res_simps split: if_splits)
  then show ?thesis
    by (auto simp: RTRIPPrefix_Decode_def byte_simps res_simps AddrFromSlice_def not_less split: if_splits)
qed

definition client_ok :: "string \<Rightarrow> roaClient \<Rightarrow> bool" where
  "client_ok key c \<longleftrightarrow> host c = key \<and> list_all (\<lambda>r. roa_ok r \<and> Src r = key) (pendingROAs c)"

definition rpki_inv :: "'t net_tree \<Rightarrow> 't roaManager \<Rightarrow> bool" where
  "rpki_inv ops m \<longleftrightarrow> table_wf ops (table m) \<and> distinct (map fst (clientMap m)) \<and>
     list_all (\<lambda>(k, c). client_ok k c) (clientMap m) \<and>
     (\<forall>k \<in> fst ` set (clientMap m). \<exists>a n. k = JoinHostPort a (Itoa n)) \<and>
     (\<forall>r \<in> roa_view ops (table m). Src r \<in> fst ` set (clientMap m))"

text \<open>What an announced prefix must satisfy: no bit is set behind its length. The parser does not check
  it.\<close>

definition prefix_ok :: "bytes \<Rightarrow> bool" where
  "prefix_ok data = (case ParseRTR data of Inr (RTRIPPrefixMsg msg) \<Rightarrow> roa_ok (roa_of [] msg) | _ \<Rightarrow> True)"

lemma roa_ok_src: "roa_ok (roa_of src msg) \<longleftrightarrow> roa_ok (roa_of [] msg)"
  by (simp add: roa_ok_def roa_of_def NewROA_def Let_def)

lemma Src_roa_of [simp]: "Src (roa_of src msg) = src"
  by (simp add: roa_of_def NewROA_def Let_def)

definition others :: "string \<Rightarrow> ROA set \<Rightarrow> ROA set" where
  "others src S = {r \<in> S. Src r \<noteq> src}"

lemma softReset_simps:
  assumes "softReset env c = (c', effs, err)"
  shows "host c' = host c" "pendingROAs c' = pendingROAs c \<or> pendingROAs c' = []"
  using assms by (auto simp: softReset_def split: option.splits if_splits)

lemma client_enable_simps:
  assumes "client_enable env serial c = (c', effs, err)"
  shows "host c' = host c" "pendingROAs c' = pendingROAs c"
  using assms by (auto simp: client_enable_def split: option.splits if_splits)

lemma handle_notify_simps:
  assumes "handle_notify env msg c = (c', effs)"
  shows "host c' = host c \<and> (pendingROAs c' = pendingROAs c \<or> pendingROAs c' = [])"
proof -
  obtain c1 e1 err1 where 1: "client_enable env (serialNumber c) c = (c1, e1, err1)" by (metis prod_cases3)
  obtain c2 e2 err2 where 2: "softReset env c = (c2, e2, err2)" by (metis prod_cases3)
  show ?thesis
    using assms client_enable_simps [OF 1] softReset_simps [OF 2] by (auto simp: handle_notify_def 1 2 split: if_splits)
qed

lemma client_ok_weaken:
  "client_ok key c \<Longrightarrow> host c' = host c \<Longrightarrow> pendingROAs c' = pendingROAs c \<or> pendingROAs c' = [] \<Longrightarrow> client_ok key c'"
  by (auto simp: client_ok_def)

lemma handle_prefix_keeps:
  assumes "tree_laws ops NewNet" and "table_wf ops rt" and "client_ok key c" and "roa_ok (roa_of [] msg)"
    and "handle_prefix ops msg c rt = (c', rt')"
  shows "client_ok key c' \<and> table_wf ops rt' \<and> others key (roa_view ops rt') = others key (roa_view ops rt)"
proof -
  let ?r = "roa_of (host c) msg"
  have ok: "roa_ok ?r" using assms(4) roa_ok_src by blast
  note a = roa_Add_spec [OF assms(1,2) ok] and d = roa_Delete_spec [OF assms(1,2) ok]
  have host: "host c = key" using assms(3) by (simp add: client_ok_def)
  have "rt' = rt \<or> rt' = roa_Add ops ?r rt \<or> rt' = roa_Delete ops ?r rt"
    using assms(5) by (auto simp: handle_prefix_def Let_def split: if_splits)
  then have "table_wf ops rt' \<and> others key (roa_view ops rt') = others key (roa_view ops rt)"
    using a d assms(2) by (auto simp: others_def host)
  moreover have "host c' = host c \<and> (pendingROAs c' = pendingROAs c \<or> pendingROAs c' = pendingROAs c @ [?r])"
    using assms(5) by (auto simp: handle_prefix_def Let_def split: if_splits)
  ultimately show ?thesis using assms(3) ok by (auto simp: client_ok_def)
qed

lemma handle_end_keeps:
  assumes "tree_laws ops NewNet" and "table_wf ops rt" and "client_ok key c" and "handle_end ops msg c rt = (c', rt', effs)"
  shows "client_ok key c' \<and> table_wf ops rt' \<and> others key (roa_view ops rt') = others key (roa_view ops rt)"
proof -
  have p: "list_all roa_ok (pendingROAs c)" "\<forall>r \<in> set (pendingROAs c). Src r = key" "host c = key"
    using assms(3) by (auto simp: client_ok_def list_all_iff)
  then show ?thesis
    using handle_end_spec [OF assms(1,2) p(1), of msg] assms(4) by (auto simp: client_ok_def others_def split: if_splits)
qed

lemma handleRTRMsg_keeps:
  assumes "tree_laws ops NewNet" and "table_wf ops rt" and "client_ok key c" and "prefix_ok buf"
    and "handleRTRMsg ops env buf c rt = (c', rt', effs)"
  shows "client_ok key c' \<and> table_wf ops rt' \<and> others key (roa_view ops rt') = others key (roa_view ops rt)"
proof (cases "ParseRTR buf")
  case (Inl e)
  then show ?thesis using assms by (simp add: handleRTRMsg_def)
next
  case (Inr msg)
  have keep: ?thesis if "rt' = rt" "host c' = host c" "pendingROAs c' = pendingROAs c \<or> pendingROAs c' = []"
    using that client_ok_weaken [OF assms(3)] assms(2) by simp
  show ?thesis
  proof (cases msg)
    case (RTRSerialNotify n)
    obtain c1 e1 where h: "handle_notify env n c = (c1, e1)" by fastforce
    have "host c1 = host c \<and> (pendingROAs c1 = pendingROAs c \<or> pendingROAs c1 = [])"
      by (rule handle_notify_simps [OF h])
    then show ?thesis using Inr RTRSerialNotify assms(5) h by (intro keep) (auto simp: handleRTRMsg_def)
  next
    case (RTRCacheReset n)
    obtain c1 e1 err where s: "softReset env c = (c1, e1, err)" by (metis prod_cases3)
    show ?thesis using RTRCacheReset Inr assms(5) softReset_simps [OF s]
      by (intro keep) (auto simp: handleRTRMsg_def s)
  next
    case (RTRIPPrefixMsg p)
    have ok: "roa_ok (roa_of [] p)" using RTRIPPrefixMsg Inr assms(4) by (simp add: prefix_ok_def)
    have "handle_prefix ops p c rt = (c', rt')"
      using RTRIPPrefixMsg Inr assms(5) by (cases "handle_prefix ops p c rt") (simp add: handleRTRMsg_def)
    then show ?thesis by (rule handle_prefix_keeps [OF assms(1-3) ok])
  next
    case (RTREndOfData n)
    then show ?thesis using Inr assms(5) handle_end_keeps [OF assms(1-3), of n] by (simp add: handleRTRMsg_def)
  qed (use Inr assms(2,3,5) in \<open>auto simp: handleRTRMsg_def client_ok_def\<close>)
qed

lemma rpki_invD:
  assumes "rpki_inv ops m"
  shows "table_wf ops (table m)" "distinct (map fst (clientMap m))"
    "r \<in> roa_view ops (table m) \<Longrightarrow> Src r \<in> fst ` set (clientMap m)"
    "map_of (clientMap m) key = Some c \<Longrightarrow> client_ok key c"
  using assms by (auto simp: rpki_inv_def list_all_iff dest!: map_of_SomeD)

lemma rpki_inv_update:
  assumes "rpki_inv ops m" and "map_of (clientMap m) key = Some c" and "client_ok key c'" and "table_wf ops rt"
    and "others key (roa_view ops rt) \<subseteq> roa_view ops (table m)"
  shows "rpki_inv ops ((put_client key c' m)\<lparr>table := rt\<rparr>)"
proof -
  have keys: "map fst (clientMap (put_client key c' m)) = map fst (clientMap m)" by (rule put_client_table(2))
  then have keys': "fst ` set (clientMap (put_client key c' m)) = fst ` set (clientMap m)" by (metis list.set_map)
  have key: "key \<in> fst ` set (clientMap m)" using assms(2) by (force dest: map_of_SomeD)
  have "list_all (\<lambda>(k, c). client_ok k c) (clientMap (put_client key c' m))"
    using assms(1,3) by (auto simp: rpki_inv_def put_client_def list_all_iff split: if_splits)
  moreover have "Src r \<in> fst ` set (clientMap m)" if "r \<in> roa_view ops rt" for r
    using that assms(5) key rpki_invD(3) [OF assms(1), of r] by (cases "Src r = key") (auto simp: others_def)
  ultimately show ?thesis
    using assms(1,4) keys keys' by (simp add: rpki_inv_def)
qed

lemma rpki_inv_client:
  assumes "rpki_inv ops m" and "map_of (clientMap m) key = Some c" and "client_ok key c'"
  shows "rpki_inv ops (put_client key c' m)"
proof -
  have "(put_client key c' m)\<lparr>table := table m\<rparr> = put_client key c' m" by (simp add: put_client_def)
  moreover have "rpki_inv ops ((put_client key c' m)\<lparr>table := table m\<rparr>)"
    by (rule rpki_inv_update [OF assms rpki_invD(1) [OF assms(1)]]) (auto simp: others_def)
  ultimately show ?thesis by (simp only:)
qed

lemma rpki_inv_shrink:
  assumes "rpki_inv ops m" and "table_wf ops rt" and "roa_view ops rt \<subseteq> roa_view ops (table m)"
  shows "rpki_inv ops (m\<lparr>table := rt\<rparr>)"
  using assms by (auto simp: rpki_inv_def)

lemma AddServer_inv:
  assumes "rpki_inv ops m" and "plain address" and "AddRpki address port life m = Inr (m', effs)"
  shows "rpki_inv ops m'"
proof -
  let ?key = "JoinHostPort address (Itoa (unat port))"
  have free: "map_of (clientMap m) ?key = None" and m': "m' = m\<lparr>clientMap := clientMap m @
      [(?key, fst (newRoaClient address (Itoa (unat port)) (if life = 0 then 3600 else life)))]\<rparr>"
    using assms(3) SplitHostPort_AddRpki [OF assms(2), of "unat port"]
    by (auto simp: AddRpki_def AddServer_def guard_err_def newRoaClient_def Let_def split: if_splits)
  have "client_ok ?key (fst (newRoaClient address (Itoa (unat port)) l))" for l
    by (simp add: newRoaClient_def Let_def client_ok_def)
  moreover have "?key \<notin> fst ` set (clientMap m)" using free by (simp add: map_of_eq_None_iff)
  ultimately show ?thesis using assms(1) by (auto simp: m' rpki_inv_def intro: exI [of _ address])
qed

lemma DeleteServer_inv:
  assumes "tree_laws ops NewNet" and "rpki_inv ops m" and "DeleteServer ops hst m = Inr (m', effs)"
  shows "rpki_inv ops m'"
proof -
  have m': "m' = m\<lparr>clientMap := filter (\<lambda>e. fst e \<noteq> hst) (clientMap m), table := roa_DeleteAll ops hst (table m)\<rparr>"
    using assms(3) by (auto simp: DeleteServer_def client_stop_def split: option.splits)
  have d: "table_wf ops (roa_DeleteAll ops hst (table m))"
      "roa_view ops (roa_DeleteAll ops hst (table m)) = {r \<in> roa_view ops (table m). Src r \<noteq> hst}"
    using roa_DeleteAll_spec [OF assms(1) rpki_invD(1) [OF assms(2)]] by simp_all
  have "Src r \<in> fst ` {e \<in> set (clientMap m). fst e \<noteq> hst}" if "r \<in> roa_view ops (table m)" "Src r \<noteq> hst" for r
    using rpki_invD(3) [OF assms(2) that(1)] that(2) by auto
  moreover have "distinct (map fst (filter (\<lambda>e. fst e \<noteq> hst) (clientMap m)))"
    using rpki_invD(2) [OF assms(2)] by (simp add: distinct_map inj_on_def)
  ultimately show ?thesis using assms(2) d by (auto simp: m' rpki_inv_def list_all_iff)
qed

lemma find_serverD:
  assumes "find_server address m = Some (net, c)" and "rpki_inv ops m"
  shows "map_of (clientMap m) net = Some c"
  using assms rpki_invD(2) [OF assms(2)] by (auto simp: find_server_def find_Some_iff in_set_conv_nth intro!: map_of_is_SomeI)

lemma DeleteAll_inv:
  assumes "tree_laws ops NewNet" and "rpki_inv ops m"
  shows "rpki_inv ops (m\<lparr>table := roa_DeleteAll ops src (table m)\<rparr>)"
  using rpki_inv_shrink [OF assms(2)] roa_DeleteAll_spec [OF assms(1) rpki_invD(1) [OF assms(2)], of src] by auto

lemma HandleROAEvent_inv:
  assumes "tree_laws ops NewNet" and "rpki_inv ops m" and "EventType ev = roaRTR \<Longrightarrow> prefix_ok (Data ev)"
  shows "rpki_inv ops (fst (HandleROAEvent ops env ev m)) \<and>
    others (ev_Src ev) (roa_view ops (table (fst (HandleROAEvent ops env ev m)))) = others (ev_Src ev) (roa_view ops (table m))"
proof (cases "map_of (clientMap m) (ev_Src ev)")
  case None
  then show ?thesis using assms(2) by (simp add: HandleROAEvent_def)
next
  case (Some c)
  note ok = rpki_invD(4) [OF assms(2) Some]
  then have host: "host c = ev_Src ev" by (simp add: client_ok_def)
  show ?thesis
  proof (cases "EventType ev")
    case roaConnected
    then show ?thesis using Some rpki_inv_client [OF assms(2) Some] ok by (simp add: HandleROAEvent_def client_ok_def)
  next
    case roaDisconnected
    then show ?thesis
      using Some rpki_inv_client [OF assms(2) Some] ok by (simp add: HandleROAEvent_def handle_disconnected_def client_ok_def)
  next
    case roaRTR
    obtain c' rt effs where h: "handleRTRMsg ops env (Data ev) c (table m) = (c', rt, effs)" by (metis prod_cases3)
    have k: "client_ok (ev_Src ev) c' \<and> table_wf ops rt \<and>
        others (ev_Src ev) (roa_view ops rt) = others (ev_Src ev) (roa_view ops (table m))"
      using handleRTRMsg_keeps [OF assms(1) rpki_invD(1) [OF assms(2)] ok assms(3) [OF roaRTR] h] .
    then have "rpki_inv ops ((put_client (ev_Src ev) c' m)\<lparr>table := rt\<rparr>)"
      using rpki_inv_update [OF assms(2) Some, of c' rt] by (auto simp: others_def)
    then show ?thesis using Some roaRTR h k by (simp add: HandleROAEvent_def)
  next
    case roaLifetimeout
    then show ?thesis
      using Some DeleteAll_inv [OF assms(1,2), of "host c"] assms(2)
        roa_DeleteAll_spec [OF assms(1) rpki_invD(1) [OF assms(2)], of "host c"]
      by (auto simp: HandleROAEvent_def others_def host)
  qed
qed

subsection \<open>What the manager can reach\<close>

text \<open>The requests of the operator, the events of the clients in any order, and the first step of a
  reading goroutine. A request that fails changes nothing. The servers send any data, but no
  prefix with a bit set behind its length: this is an assumption on the servers, which neither \<open>rtr.go\<close> nor \<open>rpki.go\<close> checks, so it is
  the scope of every theorem on reachable managers.\<close>

inductive rpki_step :: "'t net_tree \<Rightarrow> 't roaManager \<Rightarrow> 't roaManager \<Rightarrow> bool" for ops where
  step_add: "plain address \<Longrightarrow> AddRpki address port life m = Inr (m', effs) \<Longrightarrow> rpki_step ops m m'"
| step_delete: "DeleteRpki ops address port m = Inr (m', effs) \<Longrightarrow> rpki_step ops m m'"
| step_enable: "rpki_step ops m (fst (Enable env address m))"
| step_disable: "rpki_step ops m (fst (Disable ops address m))"
| step_reset: "rpki_step ops m (fst (ResetRpki ops env address soft m))"
| step_event: "(EventType ev = roaRTR \<Longrightarrow> prefix_ok (Data ev)) \<Longrightarrow> rpki_step ops m (fst (HandleROAEvent ops env ev m))"
| step_established: "rpki_step ops m (fst (established_begin env key m))"

inductive rpki_reach :: "'t net_tree \<Rightarrow> 't \<Rightarrow> 't roaManager \<Rightarrow> bool" for ops NewNet where
  reach_new: "rpki_reach ops NewNet (newROAManager (NewROATable NewNet))"
| reach_step: "rpki_reach ops NewNet m \<Longrightarrow> rpki_step ops m m' \<Longrightarrow> rpki_reach ops NewNet m'"

lemma softReset_inv:
  assumes "rpki_inv ops m" and "map_of (clientMap m) key = Some c" and "softReset env c = (c', effs, err)"
  shows "rpki_inv ops (put_client key c' m)"
  using rpki_inv_client [OF assms(1,2)] client_ok_weaken [OF rpki_invD(4) [OF assms(1,2)] softReset_simps [OF assms(3)]] by simp

lemma Disable_inv:
  assumes "tree_laws ops NewNet" and "rpki_inv ops m"
  shows "rpki_inv ops (fst (Disable ops address m))"
  using DeleteAll_inv [OF assms] assms(2) by (auto simp: Disable_def split: option.splits)

lemma rpki_step_inv:
  assumes "rpki_step ops m m'" and "tree_laws ops NewNet" and "rpki_inv ops m"
  shows "rpki_inv ops m'"
  using assms(1)
proof cases
  case (step_add address port life effs)
  then show ?thesis using AddServer_inv [OF assms(3)] by blast
next
  case (step_delete address port effs)
  then show ?thesis using DeleteServer_inv [OF assms(2,3)] by (simp add: DeleteRpki_def)
next
  case (step_enable env address)
  show ?thesis
  proof (cases "find_server address m")
    case None
    then show ?thesis using step_enable assms(3) by (simp add: Enable_def)
  next
    case (Some e)
    obtain net c where e: "e = (net, c)" by (cases e)
    obtain c' effs err where h: "client_enable env (serialNumber c) c = (c', effs, err)" by (metis prod_cases3)
    note f = find_serverD [OF Some [unfolded e] assms(3)]
    have "client_ok net c'" using client_ok_weaken [OF rpki_invD(4) [OF assms(3) f]] client_enable_simps [OF h] by simp
    then show ?thesis using rpki_inv_client [OF assms(3) f] step_enable Some e h by (simp add: Enable_def)
  qed
next
  case (step_disable address)
  then show ?thesis using Disable_inv [OF assms(2,3)] by simp
next
  case (step_reset env address soft)
  show ?thesis
  proof (cases "soft \<and> find_server address m \<noteq> None")
    case True
    then obtain net c where e: "find_server address m = Some (net, c)" by auto
    obtain c' effs err where h: "softReset env c = (c', effs, err)" by (metis prod_cases3)
    let ?m = "m\<lparr>table := roa_DeleteAll ops net (table m)\<rparr>"
    have "map_of (clientMap ?m) net = Some c" using find_serverD [OF e assms(3)] by simp
    from softReset_inv [OF DeleteAll_inv [OF assms(2,3)] this h] show ?thesis
      using step_reset True e h by (simp add: ResetRpki_def SoftReset_def)
  next
    case False
    then show ?thesis using step_reset Disable_inv [OF assms(2,3)] assms(3)
      by (cases "find_server address m") (auto simp: ResetRpki_def SoftReset_def Reset_def)
  qed
next
  case (step_event ev env)
  then show ?thesis using HandleROAEvent_inv [OF assms(2,3)] by blast
next
  case (step_established env key)
  show ?thesis
  proof (cases "map_of (clientMap m) key")
    case None
    then show ?thesis using step_established assms(3) by (simp add: established_begin_def)
  next
    case (Some c)
    obtain c' effs err where h: "softReset env c = (c', effs, err)" by (metis prod_cases3)
    then show ?thesis using step_established Some softReset_inv [OF assms(3) Some h] by (simp add: established_begin_def)
  qed
qed

lemma rpki_reach_inv: "rpki_reach ops NewNet m \<Longrightarrow> tree_laws ops NewNet \<Longrightarrow> rpki_inv ops m"
proof (induction rule: rpki_reach.induct)
  case reach_new
  then show ?case using NewROATable_spec [of ops NewNet] by (auto simp: rpki_inv_def newROAManager_def)
next
  case (reach_step m m')
  show ?case by (rule rpki_step_inv [OF reach_step.hyps(2) reach_step.prems reach_step.IH [OF reach_step.prems]])
qed

lemma deliver_reach:
  assumes "rpki_reach ops NewNet m" and "list_all prefix_ok bufs"
  shows "rpki_reach ops NewNet (deliver ops env key bufs m)"
  using assms
proof (induction bufs arbitrary: m)
  case (Cons buf bufs)
  let ?ev = "rtr_event key buf"
  have "rpki_step ops m (fst (HandleROAEvent ops env ?ev m))"
    using Cons.prems(2) by (intro step_event) (simp add: rtr_event_def)
  then show ?case using Cons.IH reach_step [OF Cons.prems(1)] Cons.prems(2) by (simp add: deliver_def)
qed (simp add: deliver_def)

lemma others_union: "S = others src S \<union> {r \<in> S. Src r = src}"
  by (auto simp: others_def)

definition prefixes_ok :: "RTRIPPrefix list \<Rightarrow> bool" where
  "prefixes_ok ps = list_all (\<lambda>p. rtr_wf (RTRIPPrefixMsg p) \<and> roa_ok (roa_of [] p)) ps"

lemma deliver_response:
  assumes "tree_laws ops NewNet" and "rpki_inv ops m" and "map_of (clientMap m) key = Some c" and "prefixes_ok ps"
  shows "\<exists>m' c'. deliver ops env key (established (stream_of (response session ps serial))) m = m' \<and>
    map_of (clientMap m') key = Some c' \<and> sessionID c' = session \<and> serialNumber c' = serial \<and> endOfData c' \<and>
    timer c' = None \<and> pendingROAs c' = [] \<and>
    roa_view ops (table m') =
      (if sessionID c = session then roa_view ops (table m) - roa_of key ` set (filter (\<lambda>p. \<not> announcing p) ps)
       else others key (roa_view ops (table m))) \<union> set (pendingROAs c) \<union> roa_of key ` set (filter announcing ps)"
proof -
  have c: "host c = key" "list_all roa_ok (pendingROAs c)"
    using rpki_invD(4) [OF assms(2,3)] by (auto simp: client_ok_def list_all_iff)
  have "list_all (\<lambda>p. rtr_wf (RTRIPPrefixMsg p) \<and> roa_ok (roa_of (host c) p)) ps"
    using assms(4) roa_ok_src by (auto simp: prefixes_ok_def list_all_iff)
  from receive_response [OF assms(1) this rpki_invD(1) [OF assms(2)] c(2), of env session serial]
  show ?thesis
    using deliver_receive [OF assms(3), of ops env "established (stream_of (response session ps serial))"] c(1)
    by (auto simp: others_def)
qed

lemma response_prefix_ok:
  assumes "prefixes_ok ps"
  shows "list_all prefix_ok (established (stream_of (response session ps serial)))"
proof -
  have wf: "list_all rtr_wf (response session ps serial)"
    using assms by (auto simp: response_def NewRTRCacheResponse_def NewRTREndOfData_def prefixes_ok_def list_all_iff)
  have short: "RTRErrorReportMsg e \<notin> set (response session ps serial)" for e
    by (auto simp: response_def NewRTRCacheResponse_def NewRTREndOfData_def)
  have "prefix_ok (serialized m)" if m: "m \<in> set (response session ps serial)" for m
  proof -
    have "ParseRTR (serialized m) = Inr m"
      using serialized_short(3) [of m] wf short m by (metis list_all_iff)
    then show ?thesis
      using m assms by (cases m) (auto simp: prefix_ok_def response_def prefixes_ok_def list_all_iff
          NewRTRCacheResponse_def NewRTREndOfData_def)
  qed
  then show ?thesis using received_messages [OF wf short] by (simp add: list_all_iff)
qed

subsection \<open>A reconnection\<close>

definition reconnect :: "'t net_tree \<Rightarrow> rpki_env \<Rightarrow> string \<Rightarrow> nat \<Rightarrow> 't roaManager \<Rightarrow> 't roaManager" where
  "reconnect ops env key k m =
     fst (established_begin env key
       (fst (HandleROAEvent ops env \<lparr>EventType = roaConnected, ev_Src = key, Data = [], ev_conn = k\<rparr>
         (fst (HandleROAEvent ops env \<lparr>EventType = roaDisconnected, ev_Src = key, Data = [], ev_conn = 0\<rparr> m)))))"

lemma reconnect_reach: "rpki_reach ops NewNet m \<Longrightarrow> rpki_reach ops NewNet (reconnect ops env key k m)"
  unfolding reconnect_def by (intro reach_step [OF _ step_established] reach_step [OF _ step_event]) simp_all

lemma reconnect_client:
  assumes "map_of (clientMap m) key = Some c"
  shows "\<exists>c'. map_of (clientMap (reconnect ops env key k m)) key = Some c' \<and> table (reconnect ops env key k m) = table m \<and>
    sessionID c' = sessionID c \<and> pendingROAs c' = []"
proof -
  define c1 where "c1 = (fst (handle_disconnected env c))\<lparr>conn := Some k, state := (state (fst (handle_disconnected env c)))\<lparr>Uptime := unix_now env\<rparr>\<rparr>"
  obtain c' effs err where s: "softReset env c1 = (c', effs, err)" by (metis prod_cases3)
  have "sessionID c1 = sessionID c" "pendingROAs c1 = []" by (simp_all add: c1_def handle_disconnected_def)
  then have "sessionID c' = sessionID c" "pendingROAs c' = []"
    using s by (auto simp: softReset_def split: option.splits if_splits)
  moreover have "map_of (clientMap (reconnect ops env key k m)) key = Some c'" "table (reconnect ops env key k m) = table m"
    using assms s by (simp_all add: reconnect_def established_begin_def HandleROAEvent_def split_beta c1_def)
  ultimately show ?thesis by blast
qed

lemma reconnect_table: "table (reconnect ops env key k m) = table m"
proof (cases "map_of (clientMap m) key")
  case None
  then show ?thesis by (simp add: reconnect_def established_begin_def HandleROAEvent_def)
next
  case (Some c)
  then show ?thesis using reconnect_client [of m key c ops env k] by blast
qed

subsection \<open>Example\<close>

definition ex_rpki_env :: rpki_env where
  "ex_rpki_env = \<lparr>unix_now = 0, write_ok = True\<rparr>"

definition ex_key :: string where
  "ex_key = ''192.0.2.1:323''"

definition ex_prefix :: "u32 \<Rightarrow> u8 \<Rightarrow> u32 \<Rightarrow> RTRIPPrefix" where
  "ex_prefix w len as = \<lparr>ipp_Version = 0, ipp_Type = RTR_IPV4_PREFIX, ipp_Len = 20, ipp_Flags = 1, ipp_PrefixLen = len,
     ipp_MaxLen = 24, ipp_Prefix = Addr4 w, ipp_AS = as\<rparr>"

definition ex_manager :: "(IPNet \<times> nat) list roaManager" where
  "ex_manager = (case AddRpki ''192.0.2.1'' 323 3600 (newROAManager (NewROATable [])) of
     Inr (m, _) \<Rightarrow> m | Inl _ \<Rightarrow> newROAManager (NewROATable []))"

definition ex_loaded :: "(IPNet \<times> nat) list roaManager" where
  "ex_loaded = deliver alist_tree ex_rpki_env ex_key (established (stream_of (response 7
     [ex_prefix 0x0A000000 8 65001, ex_prefix 0xC0000200 24 65002] 1))) (reconnect alist_tree ex_rpki_env ex_key 1 ex_manager)"

lemma ex_add: "\<exists>effs. AddRpki ''192.0.2.1'' 323 3600 (newROAManager (NewROATable [])) = Inr (ex_manager, effs)"
proof -
  have "\<not> isl (AddRpki ''192.0.2.1'' 323 3600 (newROAManager (NewROATable ([] :: (IPNet \<times> nat) list))))"
    by code_simp
  then show ?thesis by (auto simp: ex_manager_def split: sum.splits)
qed

lemma ex_manager_reach: "rpki_reach alist_tree [] ex_manager"
proof -
  obtain effs where "AddRpki ''192.0.2.1'' 323 3600 (newROAManager (NewROATable [])) = Inr (ex_manager, effs)"
    using ex_add by blast
  then have "rpki_step alist_tree (newROAManager (NewROATable [])) ex_manager"
    by (intro step_add [of "''192.0.2.1''"]) (simp_all add: plain_def)
  then show ?thesis by (rule reach_step [OF reach_new])
qed

lemma ex_prefixes_ok: "prefixes_ok [ex_prefix 0x0A000000 8 65001, ex_prefix 0xC0000200 24 65002]" "prefixes_ok [ex_prefix 0x0A000000 8 65001]"
  by code_simp+

lemma ex_client: "map_option sessionID (map_of (clientMap ex_manager) ex_key) = Some 0"
    "map_option pendingROAs (map_of (clientMap ex_manager) ex_key) = Some []"
  by code_simp+

lemma ex_loaded_reach: "rpki_reach alist_tree [] ex_loaded"
  unfolding ex_loaded_def by (intro deliver_reach reconnect_reach ex_manager_reach response_prefix_ok ex_prefixes_ok)

lemma ex_roas:
  "roa_of ex_key (ex_prefix 0x0A000000 8 65001) = ex_roa [10, 0, 0, 0] 8 24 65001 ex_key"
  "roa_of ex_key (ex_prefix 0xC0000200 24 65002) = ex_roa [192, 0, 2, 0] 24 24 65002 ex_key"
  by code_simp+

lemma ex_loaded_client:
  "\<exists>c. map_of (clientMap ex_loaded) ex_key = Some c \<and> sessionID c = 7 \<and>
    roa_of ex_key (ex_prefix 0xC0000200 24 65002) \<in> roa_view alist_tree (table ex_loaded)"
proof -
  obtain c where c: "map_of (clientMap ex_manager) ex_key = Some c" using ex_client by auto
  obtain c1 where c1: "map_of (clientMap (reconnect alist_tree ex_rpki_env ex_key 1 ex_manager)) ex_key = Some c1"
    using reconnect_client [OF c, of alist_tree ex_rpki_env 1] by blast
  have a: "announcing (ex_prefix 0xC0000200 24 65002)" by code_simp
  show ?thesis
    using deliver_response [OF alist_tree_laws rpki_reach_inv [OF reconnect_reach [OF ex_manager_reach] alist_tree_laws]
        c1 ex_prefixes_ok(1), of ex_rpki_env 7 1] a unfolding ex_loaded_def by auto
qed

text \<open>A second server is configured and loaded, then the first one reconnects.\<close>

definition ex_key2 :: string where
  "ex_key2 = ''192.0.2.2:323''"

definition ex_second :: "(IPNet \<times> nat) list roaManager" where
  "ex_second = (case AddRpki ''192.0.2.2'' 323 3600 ex_loaded of Inr (m, _) \<Rightarrow> m | Inl _ \<Rightarrow> ex_loaded)"

definition ex_two :: "(IPNet \<times> nat) list roaManager" where
  "ex_two = reconnect alist_tree ex_rpki_env ex_key 2
     (deliver alist_tree ex_rpki_env ex_key2 (established (stream_of (response 9 [ex_prefix 0x0A000000 8 65001] 1))) ex_second)"

lemma ex_second_reach: "rpki_reach alist_tree [] ex_second"
proof (cases "AddRpki ''192.0.2.2'' 323 3600 ex_loaded")
  case (Inr r)
  then have "rpki_step alist_tree ex_loaded ex_second"
    by (intro step_add [of "''192.0.2.2''" 323 3600 _ _ "snd r"]) (auto simp: plain_def ex_second_def split: prod.splits)
  then show ?thesis by (rule reach_step [OF ex_loaded_reach])
qed (simp add: ex_second_def ex_loaded_reach)

lemma ex_two_reach: "rpki_reach alist_tree [] ex_two"
  unfolding ex_two_def by (intro deliver_reach reconnect_reach ex_second_reach response_prefix_ok ex_prefixes_ok)

lemma ex_second_client: "table ex_second = table ex_loaded"
    "map_option (\<lambda>c. (sessionID c, pendingROAs c)) (map_of (clientMap ex_second) ex_key2) = Some (0, [])"
  by code_simp+

lemma ex_two_client: "map_option (\<lambda>c. (oldSessionID c, sessionID c, host c)) (map_of (clientMap ex_two) ex_key) = Some (7, 7, ex_key)"
  by code_simp

lemma ex_two_roas:
  "roa_of ex_key (ex_prefix 0xC0000200 24 65002) \<in> roa_view alist_tree (table ex_two)"
  "roa_of ex_key2 (ex_prefix 0x0A000000 8 65001) \<in> roa_view alist_tree (table ex_two)"
proof -
  define m where "m = deliver alist_tree ex_rpki_env ex_key2 (established (stream_of (response 9 [ex_prefix 0x0A000000 8 65001] 1))) ex_second"
  obtain c where c: "map_of (clientMap ex_second) ex_key2 = Some c" "sessionID c = 0" "pendingROAs c = []"
    using ex_second_client(2) by auto
  have a: "announcing (ex_prefix 0x0A000000 8 65001)" by code_simp
  have "roa_view alist_tree (table m) = others ex_key2 (roa_view alist_tree (table ex_loaded)) \<union> {roa_of ex_key2 (ex_prefix 0x0A000000 8 65001)}"
    using deliver_response [OF alist_tree_laws rpki_reach_inv [OF ex_second_reach alist_tree_laws] c(1) ex_prefixes_ok(2),
        of ex_rpki_env 9 1] a c(2,3) ex_second_client(1) unfolding m_def by auto
  moreover have "table ex_two = table m"
    unfolding ex_two_def m_def [symmetric] by (rule reconnect_table)
  ultimately show "roa_of ex_key (ex_prefix 0xC0000200 24 65002) \<in> roa_view alist_tree (table ex_two)"
    "roa_of ex_key2 (ex_prefix 0x0A000000 8 65001) \<in> roa_view alist_tree (table ex_two)"
    using ex_loaded_client by (auto simp: others_def ex_key_def ex_key2_def)
qed

lemma ex_two_expired:
  "roa_of ex_key (ex_prefix 0xC0000200 24 65002) \<notin> roa_view alist_tree (table (fst (HandleROAEvent alist_tree ex_rpki_env
     \<lparr>EventType = roaLifetimeout, ev_Src = ex_key, Data = [], ev_conn = 0\<rparr> ex_two)))"
proof -
  obtain c where c: "map_of (clientMap ex_two) ex_key = Some c" "oldSessionID c = 7" "sessionID c = 7" "host c = ex_key"
    using ex_two_client by auto
  then have "fst (HandleROAEvent alist_tree ex_rpki_env \<lparr>EventType = roaLifetimeout, ev_Src = ex_key, Data = [], ev_conn = 0\<rparr> ex_two) =
      ex_two\<lparr>table := roa_DeleteAll alist_tree ex_key (table ex_two)\<rparr>"
    by (simp add: HandleROAEvent_def)
  then show ?thesis
    using roa_DeleteAll_spec [OF alist_tree_laws rpki_invD(1) [OF rpki_reach_inv [OF ex_two_reach alist_tree_laws]], of ex_key] by simp
qed

subsection \<open>Properties\<close>

text \<open>C10: ROAs of different servers do not mix. Given servers that only send prefixes without bits set
  behind their length, which the code relies on and does not check: whatever requests, events
  and bytes the manager has seen, every ROA in the table belongs to a server that is still
  configured, and an event of one server never adds, changes or removes a ROA of another.\<close>

theorem rpki_servers_isolated:
  assumes "tree_laws ops NewNet" and "rpki_reach ops NewNet m" and "EventType ev = roaRTR \<longrightarrow> prefix_ok (Data ev)"
  shows "(\<forall>r \<in> roa_view ops (table m). map_of (clientMap m) (Src r) \<noteq> None) \<and>
    {r \<in> roa_view ops (table (fst (HandleROAEvent ops env ev m))). Src r \<noteq> ev_Src ev} =
      {r \<in> roa_view ops (table m). Src r \<noteq> ev_Src ev}"
proof -
  note inv = rpki_reach_inv [OF assms(2,1)]
  show ?thesis
    using rpki_invD(3) [OF inv] HandleROAEvent_inv [OF assms(1) inv, of ev env] assms(3)
    by (auto simp: others_def map_of_eq_None_iff)
qed

text \<open>Two loaded servers. The lifetime of the first runs out: its ROAs go, those of the second stay.\<close>

theorem rpki_servers_isolated_witness:
  "\<exists>m'. fst (HandleROAEvent alist_tree ex_rpki_env
      \<lparr>EventType = roaLifetimeout, ev_Src = ex_key, Data = [], ev_conn = 0\<rparr> ex_two) = m' \<and>
    roa_of ex_key (ex_prefix 0xC0000200 24 65002) \<in> roa_view alist_tree (table ex_two) \<and>
    roa_of ex_key (ex_prefix 0xC0000200 24 65002) \<notin> roa_view alist_tree (table m') \<and>
    roa_of ex_key2 (ex_prefix 0x0A000000 8 65001) \<in> roa_view alist_tree (table m') \<and>
    map_of (clientMap ex_two) ex_key2 \<noteq> None"
proof -
  let ?ev = "\<lparr>EventType = roaLifetimeout, ev_Src = ex_key, Data = [], ev_conn = 0\<rparr>"
  note isolated = rpki_servers_isolated [OF alist_tree_laws ex_two_reach, of ?ev ex_rpki_env]
  have "roa_of ex_key2 (ex_prefix 0x0A000000 8 65001) \<in> {r \<in> roa_view alist_tree (table ex_two). Src r \<noteq> ev_Src ?ev}"
    using ex_two_roas(2) by (simp add: ex_key_def ex_key2_def)
  then have "roa_of ex_key2 (ex_prefix 0x0A000000 8 65001) \<in>
      roa_view alist_tree (table (fst (HandleROAEvent alist_tree ex_rpki_env ?ev ex_two)))"
    using isolated by auto
  moreover have "map_of (clientMap ex_two) ex_key2 \<noteq> None" using isolated ex_two_roas(2) by fastforce
  ultimately show ?thesis using ex_two_roas(1) ex_two_expired by blast
qed

text \<open>C9: the bytes of a response, from the TCP stream to the table. Once the manager has handled a
  cache response with its prefixes and End of Data, with nothing pending from before: if the
  session identifier is new, the ROAs of the server are exactly the announced ones; if it is the
  same, the withdrawn ones are gone and the announced ones added. ROAs of other servers stay,
  the session and the serial number are those of the response, and the lifetime timer is stopped.\<close>

theorem rpki_response_loads:
  assumes "tree_laws ops NewNet" and "rpki_reach ops NewNet m" and "map_of (clientMap m) key = Some c"
    and "pendingROAs c = []" and "prefixes_ok ps"
  shows "\<exists>m' c'. deliver ops env key (established (stream_of (response session ps serial))) m = m' \<and>
    map_of (clientMap m') key = Some c' \<and> sessionID c' = session \<and> serialNumber c' = serial \<and> timer c' = None \<and>
    {r \<in> roa_view ops (table m'). Src r \<noteq> key} = {r \<in> roa_view ops (table m). Src r \<noteq> key} \<and>
    {r \<in> roa_view ops (table m'). Src r = key} =
      roa_of key ` set (filter announcing ps) \<union>
      (if sessionID c = session
       then {r \<in> roa_view ops (table m). Src r = key} - roa_of key ` set (filter (\<lambda>p. \<not> announcing p) ps) else {})"
proof -
  note inv = rpki_reach_inv [OF assms(2,1)]
  obtain m' c' where d: "deliver ops env key (established (stream_of (response session ps serial))) m = m'"
      "map_of (clientMap m') key = Some c'" "sessionID c' = session" "serialNumber c' = serial" "timer c' = None"
      "roa_view ops (table m') =
        (if sessionID c = session then roa_view ops (table m) - roa_of key ` set (filter (\<lambda>p. \<not> announcing p) ps)
         else others key (roa_view ops (table m))) \<union> set (pendingROAs c) \<union> roa_of key ` set (filter announcing ps)"
    using deliver_response [OF assms(1) inv assms(3,5), of env session serial] by (elim exE conjE) simp
  have src: "Src r = key" if "r \<in> roa_of key ` S" for r S using that by auto
  have "{r \<in> roa_view ops (table m'). Src r \<noteq> key} = {r \<in> roa_view ops (table m). Src r \<noteq> key}"
    unfolding d(6) using src assms(4) by (auto simp: others_def)
  moreover have "{r \<in> roa_view ops (table m'). Src r = key} = roa_of key ` set (filter announcing ps) \<union>
      (if sessionID c = session
       then {r \<in> roa_view ops (table m). Src r = key} - roa_of key ` set (filter (\<lambda>p. \<not> announcing p) ps) else {})"
    unfolding d(6) using assms(4) by (auto simp: others_def)
  ultimately show ?thesis using d(1-5) by blast
qed

theorem rpki_response_loads_witness:
  "\<exists>m'. deliver alist_tree ex_rpki_env ex_key (established (stream_of (response 7 [ex_prefix 0x0A000000 8 65001] 1))) ex_manager = m' \<and>
    {r \<in> roa_view alist_tree (table m'). Src r = ex_key} = {ex_roa [10, 0, 0, 0] 8 24 65001 ex_key}"
proof -
  obtain c where c: "map_of (clientMap ex_manager) ex_key = Some c" "pendingROAs c = []" "sessionID c = 0" using ex_client by auto
  have "filter announcing [ex_prefix 0x0A000000 8 65001] = [ex_prefix 0x0A000000 8 65001]" by code_simp
  then show ?thesis
    using rpki_response_loads [OF alist_tree_laws ex_manager_reach c(1,2) ex_prefixes_ok(2), of ex_rpki_env 7 1] c(3)
    by (auto simp: ex_roas)
qed

text \<open>C11: a reconnection keeps ROAs that were withdrawn meanwhile. After the connection is lost and
  made again the client asks for all ROAs; if the cache answers under the session identifier it
  had before, as it does when it was not restarted, no ROA that the table held for the server
  is removed, whether the answer contains it or not, and the lifetime timer, the only thing that
  would still remove it, is stopped.\<close>

theorem rpki_reconnect_keeps_stale:
  assumes "tree_laws ops NewNet" and "rpki_reach ops NewNet m" and "map_of (clientMap m) key = Some c"
    and "prefixes_ok ps" and "list_all announcing ps"
  shows "\<exists>m' c'. deliver ops env key (established (stream_of (response (sessionID c) ps serial))) (reconnect ops env key k m) = m' \<and>
    map_of (clientMap m') key = Some c' \<and> timer c' = None \<and> endOfData c' \<and>
    roa_view ops (table m') = roa_view ops (table m) \<union> roa_of key ` set ps"
proof -
  obtain c1 where c1: "map_of (clientMap (reconnect ops env key k m)) key = Some c1" "table (reconnect ops env key k m) = table m"
      "sessionID c1 = sessionID c" "pendingROAs c1 = []"
    using reconnect_client [OF assms(3), of ops env k] by blast
  have "filter announcing ps = ps" "filter (\<lambda>p. \<not> announcing p) ps = []" using assms(5) by (induction ps) auto
  then show ?thesis
    using deliver_response [OF assms(1) rpki_reach_inv [OF reconnect_reach [OF assms(2)] assms(1)] c1(1) assms(4),
        of env "sessionID c" serial] c1 by auto
qed

theorem rpki_reconnect_keeps_stale_witness:
  "\<exists>m'. deliver alist_tree ex_rpki_env ex_key (established (stream_of (response 7 [ex_prefix 0x0A000000 8 65001] 2)))
      (reconnect alist_tree ex_rpki_env ex_key 2 ex_loaded) = m' \<and>
    ex_roa [192, 0, 2, 0] 24 24 65002 ex_key \<in> roa_view alist_tree (table m')"
proof -
  obtain c where c: "map_of (clientMap ex_loaded) ex_key = Some c" "sessionID c = 7"
      "roa_of ex_key (ex_prefix 0xC0000200 24 65002) \<in> roa_view alist_tree (table ex_loaded)"
    using ex_loaded_client by blast
  have "list_all announcing [ex_prefix 0x0A000000 8 65001]" by code_simp
  from rpki_reconnect_keeps_stale [OF alist_tree_laws ex_loaded_reach c(1) ex_prefixes_ok(2) this, of ex_rpki_env 2 2]
  show ?thesis using c(2,3) by (auto simp: ex_roas)
qed

text \<open>C12: the errors of adding and deleting a server. A server that was added cannot be added
  again with the same address and port, and a request to delete it by its address and port always
  fails: the request drops the port, and the manager files the server under address and port.\<close>

theorem DeleteRpki_fails:
  assumes "tree_laws ops NewNet" and "rpki_reach ops NewNet m" and "address_text address"
    and "AddRpki address port life m = Inr (m', effs)"
  shows "DeleteRpki ops address port m' = Inl (Err (ServerDoesNotExist address)) \<and>
    AddRpki address port life' m' = Inl (Err (ServerExists (JoinHostPort address (Itoa (unat port)))))"
proof -
  have plain: "plain address" using assms(3) by (simp add: address_text_def)
  have inv: "rpki_inv ops m'" using AddServer_inv [OF rpki_reach_inv [OF assms(2,1)] plain assms(4)] .
  have "map_of (clientMap m') address = None"
  proof (rule ccontr)
    assume "map_of (clientMap m') address \<noteq> None"
    then have "address \<in> fst ` set (clientMap m')" by (simp add: map_of_eq_None_iff)
    then obtain a n where "address = JoinHostPort a (Itoa n)" using inv by (auto simp: rpki_inv_def)
    then show False using address_not_key [OF assms(3), of a n] by simp
  qed
  moreover have "map_of (clientMap m') (JoinHostPort address (Itoa (unat port))) \<noteq> None"
    using assms(4) SplitHostPort_AddRpki [OF plain, of "unat port"]
    by (auto simp: AddRpki_def AddServer_def guard_err_def newRoaClient_def Let_def map_of_eq_None_iff split: if_splits)
  ultimately show ?thesis
    using SplitHostPort_AddRpki [OF plain, of "unat port"]
    by (simp add: DeleteRpki_def DeleteServer_def AddRpki_def AddServer_def guard_err_def)
qed

theorem DeleteRpki_fails_witness:
  "DeleteRpki alist_tree ''192.0.2.1'' 323 ex_manager = Inl (Err (ServerDoesNotExist ''192.0.2.1''))"
proof -
  obtain effs where a: "AddRpki ''192.0.2.1'' 323 3600 (newROAManager (NewROATable [])) = Inr (ex_manager, effs)"
    using ex_add by blast
  have "address_text ''192.0.2.1''" by code_simp
  then show ?thesis using DeleteRpki_fails [OF alist_tree_laws reach_new _ a] by blast
qed

text \<open>C13: the shape of a ROA made from received bytes. Whatever the bytes of a prefix message, the ROA has
  the server as its source, an address of four or sixteen bytes as its family says, a
  mask for that many bits (so never the nil mask of an impossible length), and a maximum length
  between the prefix length and that number of bits.\<close>

theorem received_roa_typed:
  assumes "ParseRTR data = Inr (RTRIPPrefixMsg msg)"
  shows "Src (roa_of src msg) = src \<and>
    (roa_Family (roa_of src msg) = AFI_IP \<and> length (IP (Network (roa_of src msg))) = 4 \<or>
     roa_Family (roa_of src msg) = AFI_IP6 \<and> length (IP (Network (roa_of src msg))) = 16) \<and>
    Mask (Network (roa_of src msg)) = Some (unat (ipp_PrefixLen msg), 8 * length (IP (Network (roa_of src msg)))) \<and>
    unat (ipp_PrefixLen msg) \<le> unat (MaxLen (roa_of src msg)) \<and>
    unat (MaxLen (roa_of src msg)) \<le> 8 * length (IP (Network (roa_of src msg)))"
  using parsed_prefix [OF assms] Addr_lengths [of "ipp_Prefix msg"]
  by (auto simp: roa_of_def NewROA_def Let_def CIDRMask_def word_le_nat_alt)

theorem received_roa_typed_witness:
  "Mask (Network (roa_of ex_key (ex_prefix 0x0A000000 8 65001))) = Some (8, 8 * length (IP (Network (roa_of ex_key (ex_prefix 0x0A000000 8 65001)))))"
proof -
  have "rtr_wf (RTRIPPrefixMsg (ex_prefix 0x0A000000 8 65001))" by code_simp
  then have "ParseRTR (serialized (RTRIPPrefixMsg (ex_prefix 0x0A000000 8 65001))) = Inr (RTRIPPrefixMsg (ex_prefix 0x0A000000 8 65001))"
    by (intro serialized_short(3)) simp_all
  moreover have "unat (ipp_PrefixLen (ex_prefix 0x0A000000 8 65001)) = 8" by code_simp
  ultimately show ?thesis using received_roa_typed by metis
qed

end
