(* ===== verification/Spec2Isabelle.thy ===== *)
theory Spec2Isabelle
  imports Bfd_Peer Path_Export Rib_Table Rpki
begin

text \<open>
  \<^bold>\<open>A verification library for GoBGP.\<close>

  GoBGP is a BGP speaker. Its peers (\<open>pkg/server\<close>) receive UPDATE messages, whose path attributes
  are decoded by \<open>pkg/packet/bgp\<close>; the routes become paths of the routing table
  (\<open>internal/pkg/table\<close>), which orders the paths to a destination, picks the best and
  computes what changed; a changed best path is rewritten for each peer it is sent to. Beside
  that run an RTR client, which fills a table of route origin authorisations (ROAs) that paths are
  validated against, and BFD sessions, which reset a BGP peer when it is no longer
  reachable. The library models these parts from the bytes on the wire up to the decision.

  \<^bold>\<open>Theories, and the code they model.\<close>

  \<^item> \<open>Prelude\<close>: words, the sum type of results with \<open>Panic\<close> for run-time panics,
    checked reads and writes of buffers, big-endian numbers, and three interfaces as
    locales: \<open>message_codec\<close> (an encoder and a decoder), \<open>stream_codec\<close> (the same
    for messages cut from a stream) and \<open>refined_store\<close> (operations on a state that implement
    operations on an abstract view of it, for the inputs the state takes; \<open>run_ok\<close> says that a
    whole history consists of such inputs).
  \<^item> \<open>Netip\<close>: \<open>net/netip\<close> of the standard library, with the order of addresses.
  \<^item> \<open>Rtr_Packet\<close>: \<open>pkg/packet/rtr/rtr.go\<close>, and \<open>readRTRMessage\<close> and the receive loop
    \<open>established\<close> of \<open>pkg/server/rpki.go\<close>.
  \<^item> \<open>Bfd_Packet\<close>: \<open>pkg/packet/bfd/bfd.go\<close>.
  \<^item> \<open>Bfd_Peer\<close>: \<open>pkg/server/bfd_peer.go\<close>; the event loop is \<open>bfd_loop\<close>, one function per
    handler, over the record \<open>bfdPeer\<close>.
  \<^item> \<open>Bgp_Attr\<close>: the path attributes of \<open>pkg/packet/bgp/bgp.go\<close> and their checks in
    \<open>validate.go\<close>.
  \<^item> \<open>Path\<close>: \<open>internal/pkg/table/path.go\<close>; a path is a chain of layers of changed
    attributes, and \<open>attr_store\<close> is the locale of what reading and writing an attribute promises.
  \<^item> \<open>Path_Export\<close>: \<open>UpdatePathAttrs\<close> of \<open>path.go\<close>, and \<open>postFilterpath\<close> of \<open>server.go\<close>, which
    follows the export policy, with what it asks of \<open>peer.go\<close>.
  \<^item> \<open>Destination\<close>: \<open>internal/pkg/table/destination.go\<close>; the known paths of a prefix, the
    decision process, multipath and the reported changes.
  \<^item> \<open>Rib_Table\<close>: \<open>internal/pkg/table/table.go\<close>; the destinations of an address family, in shards
    of buckets under a hash of the NLRI.
  \<^item> \<open>Roa\<close>: \<open>internal/pkg/table/roa.go\<close>; the table of ROAs and origin validation.
  \<^item> \<open>Rpki\<close>: the manager of \<open>pkg/server/rpki.go\<close> and the requests of \<open>server.go\<close> it serves. An
    operation returns the changed manager and the list of its effects (connections, queries, timers);
    \<open>rpki_step\<close> is the step relation of requests, events of the clients and RTR messages.

  A Go struct is a record with the fields of the code, an interface or an enumeration a datatype,
  a method a function of the same name that returns the changed receiver. Where two types have a
  method of one name, the type comes first (\<open>RTRReset_Decode\<close>, \<open>roa_Add\<close>).

  \<^bold>\<open>What the theorems show.\<close>

  \<^item> \<^emph>\<open>Codecs\<close>: RTR messages, BFD packets and path attributes that are well formed decode to
    themselves after encoding, the modelled decoders do not panic on any input, and the RTR receive loop
    cuts a stream into the messages it was made of. The attribute types whose decoders are not
    modelled go to an argument of which nothing is assumed.
  \<^item> \<^emph>\<open>BFD\<close>: an invariant of every reachable session; two peers that exchange packets reach
    Up; BGP is reset exactly when a session is lost; packets are valid (but always say ``no
    diagnostic'', as the findings note), paced and cannot be
    spoofed; the detection time is the one of RFC 5880, not the one of the user documentation.
  \<^item> \<^emph>\<open>Paths\<close>: the assembly of the attributes of a layered path agrees with reading them
    one by one; prepending, removal of private and confederation AS numbers, MED arithmetic and
    communities do what they say, up to the two exceptions the findings name.
  \<^item> \<^emph>\<open>Destinations\<close>: under every selection option and after any history of inputs (\<open>input_ok\<close>) a
    destination holds the last path of each source and path identifier, and its local path identifiers are
    unique. If MEDs are always compared and the paths are ordinary (\<open>ordinary\<close>: an ORIGIN, no
    confederation peer, an IPv4 router identifier or local), the chain of comparisons is a lexicographic
    order, the best path is one that no other beats, and, unless AS_PATH lengths are ignored, the
    binary search for the multipath agrees with the comparison of all paths; with the default options
    the comparison can have cycles (\<open>MED_cycle\<close>). The
    changes reported are those of the usable best path.
  \<^item> \<^emph>\<open>Tables\<close>: a table of IP or VPN prefixes behaves as one destination per NLRI, whatever the hash
    collisions and the number of shards. NLRIs of other families are told apart by their printed
    form, which is not modelled.
  \<^item> \<^emph>\<open>Export\<close>: what an external peer is sent, and how a path is prepared for a route reflector
    client, with the scope each theorem states.
  \<^item> \<^emph>\<open>ROAs\<close>: the table is a set under its operations, and validation over it is RFC 6811.
  \<^item> \<^emph>\<open>RPKI\<close>: from the bytes of a cache response to the ROAs in the table; servers do not disturb each
    other, as long as they send no prefix with bits set behind its length, which the code does not
    check; received ROAs are well typed; and two failures the findings name, stale ROAs after a
    reconnection and deletion of a server by address and port.

  \<^bold>\<open>Parameters and bounds.\<close>

  Third-party code is an argument: the prefix tree of the ROA table (\<open>net_tree\<close>, with the laws
  \<open>tree_laws\<close> that an association list satisfies), the hash of the path attributes and the hash
  of an NLRI (\<open>hash_ops\<close>, with no laws), and the encoding of an NLRI. Socket writes, the clock and random numbers are the environment of a
  BFD handler. No function of the model has fuel: loops are structural recursion, or have a
  termination proof. The histories of a destination are bounded by \<open>67108862\<close> inputs, two
  less than \<open>2 ^ 26\<close>: up to there the map of path identifiers has at most \<open>2 ^ 26\<close> words of 64
  bits, so that an identifier fits the 32 bits it has in the code.

  \<^bold>\<open>Not modelled.\<close>

  \<^item> The finite state machine and the server: goroutines on sockets, channels and timers. Of the
    RPKI client the same holds; its manager is modelled.
  \<^item> OPEN, UPDATE and NOTIFICATION messages, the NLRI of the address families and the
    attributes the table does not read; BMP and MRT, which wrap these messages.
  \<^item> The table manager, VRFs and route target constraints, which read the contents of the NLRI
    types and of the extended communities; the indices of a table by MAC address and by route
    target, and its \<open>Select\<close>, for the same reason.
  \<^item> Policy matching, which is regular expressions and third-party prefix sets.
  \<^item> Generated code (the gRPC interface, the configuration types), system calls, the Zebra
    client, metrics and the command line.
\<close>

end
